theory Spec2Isabelle
  imports Main "HOL-Library.Word"
begin

unbundle bit_operations_syntax

section \<open>Types and constants of FingerprintModule.h\<close>

type_synonym byte = "8 word"
type_synonym word16 = "16 word"
type_synonym dword = "32 word"

definition TIMEOUT :: nat where "TIMEOUT = 11"

definition DEVICE_ID_MSB :: byte where "DEVICE_ID_MSB = 0x00"
definition DEVICE_ID_LSB :: byte where "DEVICE_ID_LSB = 0x01"
definition CMD_START_CODE_1 :: byte where "CMD_START_CODE_1 = 0x55"
definition CMD_START_CODE_2 :: byte where "CMD_START_CODE_2 = 0xAA"

text \<open>\<open>enum COMMAND\<close>: the codes the public operations send.\<close>

definition CMD_OPEN :: word16 where "CMD_OPEN = 0x01"
definition CMD_CLOSE :: word16 where "CMD_CLOSE = 0x02"
definition CMD_CHANGE_BAUDRATE :: word16 where "CMD_CHANGE_BAUDRATE = 0x04"
definition CMD_CMOS_LED :: word16 where "CMD_CMOS_LED = 0x12"
definition CMD_GET_ENROLL_COUNT :: word16 where "CMD_GET_ENROLL_COUNT = 0x20"
definition CMD_CHECK_ENROLLED :: word16 where "CMD_CHECK_ENROLLED = 0x21"
definition CMD_ENROLL_START :: word16 where "CMD_ENROLL_START = 0x22"
definition CMD_ENROLL1 :: word16 where "CMD_ENROLL1 = 0x23"
definition CMD_ENROLL2 :: word16 where "CMD_ENROLL2 = 0x24"
definition CMD_ENROLL3 :: word16 where "CMD_ENROLL3 = 0x25"
definition CMD_IS_PRESS_FINGER :: word16 where "CMD_IS_PRESS_FINGER = 0x26"
definition CMD_DELETE_ID :: word16 where "CMD_DELETE_ID = 0x40"
definition CMD_DELETE_ALL :: word16 where "CMD_DELETE_ALL = 0x41"
definition CMD_VERIFY :: word16 where "CMD_VERIFY = 0x50"
definition CMD_IDENTIFY :: word16 where "CMD_IDENTIFY = 0x51"
definition CMD_CAPTURE_FINGER :: word16 where "CMD_CAPTURE_FINGER = 0x60"

text \<open>\<open>enum RESPONSE\<close> and the members of \<open>enum RESPONSE_ERROR\<close> the code refers to.\<close>

definition ACK :: byte where "ACK = 0x30"
definition NACK :: byte where "NACK = 0x31"

definition NACK_NOT_RECVD :: dword where "NACK_NOT_RECVD = 0x0001"
definition NACK_COMM_ERR :: dword where "NACK_COMM_ERR = 0x1006"
definition NACK_BAD_FINGER :: dword where "NACK_BAD_FINGER = 0x100C"
definition NACK_ENROLL_FAILED :: dword where "NACK_ENROLL_FAILED = 0x100D"
definition NACK_DEV_ERR :: dword where "NACK_DEV_ERR = 0x100F"
definition NACK_FINGER_IS_NOT_PRESSED :: dword where "NACK_FINGER_IS_NOT_PRESSED = 0x1012"

datatype ENROLL_STATE = START | CAPTURE | ENROLL | COMPLETE | REMOVE_FINGER

section \<open>Wire codec (private helpers of FingerprintModule.cpp)\<close>

text \<open>
  \<open>computeCheckSum(byte* arr, uint32_t size)\<close>: the pointer argument is modelled by the
  index function of the array it points to; the accumulator \<open>chkSum\<close> is a 16-bit word,
  so \<open>chkSum += arr[i]\<close> wraps. The counter \<open>i\<close> never passes \<open>size\<close>, so it is a \<open>nat\<close>.
\<close>

function computeCheckSum_loop :: "(nat \<Rightarrow> byte) \<Rightarrow> nat \<Rightarrow> nat \<Rightarrow> word16 \<Rightarrow> word16" where
  "computeCheckSum_loop arr sz i chkSum =
     (if i < sz then computeCheckSum_loop arr sz (i + 1) (chkSum + ucast (arr i))
      else chkSum)"
  by pat_completeness auto
termination
  by (relation "measure (\<lambda>(arr, sz, i, chkSum). sz - i)") auto

declare computeCheckSum_loop.simps [simp del]

definition computeCheckSum :: "(nat \<Rightarrow> byte) \<Rightarrow> nat \<Rightarrow> word16" where
  "computeCheckSum arr sz = computeCheckSum_loop arr sz 0 0x0000"

text \<open>\<open>flipEndianness(word)\<close> and \<open>flipEndianness(dword)\<close>; the results are stored back
  into a variable of the argument's width, so the shifts are taken at that width.\<close>

definition flipEndianness16 :: "word16 \<Rightarrow> word16" where
  "flipEndianness16 flipThis =
     push_bit 8 (flipThis AND 0x00FF) OR drop_bit 8 (flipThis AND 0xFF00)"

definition flipEndianness32 :: "dword \<Rightarrow> dword" where
  "flipEndianness32 flipThis =
     push_bit 24 (flipThis AND 0x000000FF) OR drop_bit 24 (flipThis AND 0xFF000000) OR
     push_bit 8 (flipThis AND 0x0000FF00) OR drop_bit 8 (flipThis AND 0x00FF0000)"

text \<open>\<open>split(word, byte*)\<close> and \<open>split(dword, byte*)\<close>: the destination array, most
  significant byte at index 0.\<close>

definition split16 :: "word16 \<Rightarrow> byte list" where
  "split16 splitThis = [ucast (drop_bit 8 splitThis AND 0xFF), ucast (splitThis AND 0xFF)]"

definition split32 :: "dword \<Rightarrow> byte list" where
  "split32 splitThis =
     [ucast (drop_bit 24 splitThis AND 0xFF), ucast (drop_bit 16 splitThis AND 0xFF),
      ucast (drop_bit 8 splitThis AND 0xFF), ucast (splitThis AND 0xFF)]"

section \<open>Module state and the serial transport\<close>

text \<open>
  The fields of class \<open>FingerprintModule\<close>, together with the state of the serial port
  \<open>COMMS\<close> the class owns: \<open>rx\<close> holds the bytes waiting in the receive buffer
  (\<open>COMMS.available()\<close> is its length, \<open>COMMS.read()\<close> takes its head), \<open>tx\<close> the
  bytes written so far, and \<open>polls\<close> counts the receive calls made. The large buffer
  \<open>mDataPkt\<close> is only ever accessed by index and is kept as an index function.
\<close>

record fpm =
  mRespPkt :: "byte list"
  mDataPkt :: "nat \<Rightarrow> byte"
  mRespStatus :: bool
  mRespParam :: dword
  mEnrollmentStage :: "8 word"
  rx :: "byte list"
  tx :: "byte list"
  polls :: nat

text \<open>
  \<open>send(cmd, param, isBigEndian)\<close>. \<open>cmdPacket\<close> is the local array \<open>pkt\<close> once it is
  filled; \<open>COMMS.write\<close> is a blocking write that takes all 12 bytes, so \<open>bytesSent\<close>
  is 12.
\<close>

definition cmdPacket :: "word16 \<Rightarrow> dword \<Rightarrow> bool \<Rightarrow> byte list" where
  "cmdPacket cmd param isBigEndian =
     (let pkt4 = [CMD_START_CODE_1, CMD_START_CODE_2, DEVICE_ID_LSB, DEVICE_ID_MSB];
          param' = (if isBigEndian then flipEndianness32 param else param);
          cmd' = (if isBigEndian then flipEndianness16 cmd else cmd);
          paramArr = split32 param';
          cmdArr = split16 cmd';
          pkt10 = pkt4 @ [paramArr ! 0, paramArr ! 1, paramArr ! 2, paramArr ! 3,
                          cmdArr ! 0, cmdArr ! 1];
          chkSum = flipEndianness16 (computeCheckSum ((!) pkt10) 10);
          chkSumArr = split16 chkSum
      in pkt10 @ [chkSumArr ! 0, chkSumArr ! 1])"

definition send :: "word16 \<Rightarrow> dword \<Rightarrow> bool \<Rightarrow> fpm \<Rightarrow> bool \<times> fpm" where
  "send cmd param isBigEndian s =
     (let pkt = cmdPacket cmd param isBigEndian;
          bytesSent = length pkt
      in (bytesSent = 12, s\<lparr>tx := tx s @ pkt\<rparr>))"

section \<open>Receiving packets\<close>

text \<open>\<open>COMMS.read()\<close> on the receive buffer: the next byte, or \<open>-1\<close> when none is waiting.\<close>

fun COMMS_read :: "byte list \<Rightarrow> int \<times> byte list" where
  "COMMS_read [] = (- 1, [])"
| "COMMS_read (b # bs) = (uint b, bs)"

text \<open>The inner loop of \<open>recvResponsePkt\<close>:
  \<open>for (i = 2; i < 12 && COMMS.available(); ++i) buff[i] = COMMS.read();\<close>\<close>

function recvResponsePkt_fill :: "nat \<Rightarrow> byte list \<Rightarrow> byte list \<Rightarrow> nat \<times> byte list \<times> byte list" where
  "recvResponsePkt_fill i buff rxb =
     (if i < 12 \<and> rxb \<noteq> [] then
        recvResponsePkt_fill (i + 1) (buff[i := word_of_int (fst (COMMS_read rxb))])
          (snd (COMMS_read rxb))
      else (i, buff, rxb))"
  by pat_completeness auto
termination
  by (relation "measure (\<lambda>(i, buff, rxb). 12 - i)") auto

declare recvResponsePkt_fill.simps [simp del]

lemma recvResponsePkt_fill_length:
  "length (snd (snd (recvResponsePkt_fill i buff rxb))) \<le> length rxb"
proof (induction i buff rxb rule: recvResponsePkt_fill.induct)
  case (1 i buff rxb)
  show ?case
  proof (cases "i < 12 \<and> rxb \<noteq> []")
    case True
    then obtain b bs where "rxb = b # bs" by (cases rxb) auto
    with True 1 show ?thesis
      by (subst recvResponsePkt_fill.simps) auto
  next
    case False
    then show ?thesis by (subst recvResponsePkt_fill.simps) auto
  qed
qed

text \<open>The scanning loop of \<open>recvResponsePkt\<close>, \<open>while (COMMS.available() && !done)\<close>.
  It returns \<open>done\<close>, the local array \<open>buff\<close> and what is left in the receive buffer.\<close>

function recvResponsePkt_scan :: "byte list \<Rightarrow> byte list \<Rightarrow> bool \<times> byte list \<times> byte list" where
  "recvResponsePkt_scan buff rxb =
     (if rxb \<noteq> [] then
        (let incomingByte = (word_of_int (fst (COMMS_read rxb)) :: byte);
             rx1 = snd (COMMS_read rxb)
         in if incomingByte = 0x55 then
              (if fst (COMMS_read rx1) = 0xAA then
                 (let filled = recvResponsePkt_fill 2 (buff[0 := 0x55, 1 := 0xAA]) (snd (COMMS_read rx1))
                  in if fst filled = 12 then (True, fst (snd filled), snd (snd filled))
                     else recvResponsePkt_scan (fst (snd filled)) (snd (snd filled)))
               else recvResponsePkt_scan buff (snd (COMMS_read rx1)))
            else recvResponsePkt_scan buff rx1)
      else (False, buff, rxb))"
  by pat_completeness auto
termination
proof (relation "measure (\<lambda>(buff, rxb). length rxb)", goal_cases)
  case 1
  show ?case by simp
next
  case (2 buff rxb incomingByte rx1 filled)
  obtain b bs where rxb: "rxb = b # bs" using 2(1) by (cases rxb) auto
  have "length (snd (snd filled)) \<le> length (snd (COMMS_read rx1))"
    unfolding 2(6) by (rule recvResponsePkt_fill_length)
  also have "\<dots> \<le> length rx1" by (cases rx1) auto
  also have "\<dots> < length rxb" using 2(3) rxb by simp
  finally show ?case by (simp add: case_prod_beta)
next
  case (3 buff rxb incomingByte rx1)
  obtain b bs where rxb: "rxb = b # bs" using 3(1) by (cases rxb) auto
  have "length (snd (COMMS_read rx1)) \<le> length rx1" by (cases rx1) auto
  also have "\<dots> < length rxb" using 3(3) rxb by simp
  finally show ?case by simp
next
  case (4 buff rxb incomingByte rx1)
  then show ?case by (cases rxb) auto
qed

declare recvResponsePkt_scan.simps [simp del]

text \<open>
  \<open>recvResponsePkt()\<close>. The bytes the transport has delivered since the previous receive
  call, \<open>arrive (polls s)\<close>, are in the receive buffer when the call scans it. The local
  array \<open>buff\<close> is not initialised by the source; it starts here as twelve zero bytes, and
  \<open>recvResponsePkt_scan_buff_irrelevant\<close> below shows that the start value never shows in
  the result. \<open>givenChkSum\<close> and the parameter are assembled least significant byte first,
  with 32-bit \<open>int\<close>. The final copy loop leaves \<open>mRespPkt[i] = buff[i]\<close> for \<open>i\<close> in 0..11.
\<close>

definition recvResponsePkt :: "(nat \<Rightarrow> byte list) \<Rightarrow> fpm \<Rightarrow> bool \<times> fpm" where
  "recvResponsePkt arrive s =
     (let scanned = recvResponsePkt_scan (replicate 12 0x00) (rx s @ arrive (polls s));
          isDone = fst scanned;
          buff = fst (snd scanned);
          s1 = s\<lparr>rx := snd (snd scanned), polls := polls s + 1\<rparr>;
          givenChkSum = (if isDone then push_bit 8 (ucast (buff ! 11)) OR ucast (buff ! 10)
                         else (0x0000 :: word16));
          param = (push_bit 24 (ucast (buff ! 7)) OR push_bit 16 (ucast (buff ! 6)) OR
                   push_bit 8 (ucast (buff ! 5)) OR ucast (buff ! 4) :: dword)
      in if \<not> isDone then
           (isDone, s1\<lparr>mRespStatus := False, mRespParam := NACK_NOT_RECVD\<rparr>)
         else if computeCheckSum ((!) buff) 10 \<noteq> givenChkSum then
           (isDone, s1\<lparr>mRespStatus := False, mRespParam := NACK_COMM_ERR\<rparr>)
         else if buff ! 8 = 0x31 then
           (isDone, s1\<lparr>mRespStatus := False, mRespParam := param\<rparr>)
         else
           (isDone, s1\<lparr>mRespStatus := True, mRespParam := param,
                         mRespPkt := map ((!) buff) [0..<12]\<rparr>))"

text \<open>The inner loop of \<open>recvDataPkt\<close>; its counter \<open>i\<close> is a \<open>uint8_t\<close> compared with the
  32-bit \<open>totalPktSize\<close>.\<close>

function recvDataPkt_fill ::
  "dword \<Rightarrow> 8 word \<Rightarrow> (nat \<Rightarrow> byte) \<Rightarrow> byte list \<Rightarrow> 8 word \<times> (nat \<Rightarrow> byte) \<times> byte list" where
  "recvDataPkt_fill totalPktSize i dataPkt rxb =
     (if ucast i < totalPktSize \<and> rxb \<noteq> [] then
        recvDataPkt_fill totalPktSize (i + 1)
          (dataPkt(unat i := word_of_int (fst (COMMS_read rxb)))) (snd (COMMS_read rxb))
      else (i, dataPkt, rxb))"
  by pat_completeness auto
termination
proof (relation "measure (\<lambda>(totalPktSize, i, dataPkt, rxb). length rxb)", goal_cases)
  case 1
  show ?case by simp
next
  case (2 totalPktSize i dataPkt rxb)
  then show ?case by (cases rxb) auto
qed

declare recvDataPkt_fill.simps [simp del]

lemma recvDataPkt_fill_length:
  "length (snd (snd (recvDataPkt_fill totalPktSize i dataPkt rxb))) \<le> length rxb"
proof (induction totalPktSize i dataPkt rxb rule: recvDataPkt_fill.induct)
  case (1 totalPktSize i dataPkt rxb)
  show ?case
  proof (cases "ucast i < totalPktSize \<and> rxb \<noteq> []")
    case True
    have unfold: "recvDataPkt_fill totalPktSize i dataPkt rxb =
        recvDataPkt_fill totalPktSize (i + 1)
          (dataPkt(unat i := word_of_int (fst (COMMS_read rxb)))) (snd (COMMS_read rxb))"
      using True by (subst recvDataPkt_fill.simps) simp
    have "length (snd (snd (recvDataPkt_fill totalPktSize i dataPkt rxb)))
            \<le> length (snd (COMMS_read rxb))"
      unfolding unfold by (rule 1 [OF True])
    also have "\<dots> \<le> length rxb" by (cases rxb) auto
    finally show ?thesis .
  next
    case False
    then show ?thesis by (subst recvDataPkt_fill.simps) auto
  qed
qed

function recvDataPkt_scan ::
  "dword \<Rightarrow> (nat \<Rightarrow> byte) \<Rightarrow> byte list \<Rightarrow> bool \<times> (nat \<Rightarrow> byte) \<times> byte list" where
  "recvDataPkt_scan totalPktSize dataPkt rxb =
     (if rxb \<noteq> [] then
        (let incomingByte = (word_of_int (fst (COMMS_read rxb)) :: byte);
             rx1 = snd (COMMS_read rxb)
         in if incomingByte = 0x5A then
              (if fst (COMMS_read rx1) = 0xA5 then
                 (let filled = recvDataPkt_fill totalPktSize 2 (dataPkt(0 := 0x5A, 1 := 0xA5))
                                 (snd (COMMS_read rx1))
                  in if ucast (fst filled) = totalPktSize
                     then (True, fst (snd filled), snd (snd filled))
                     else recvDataPkt_scan totalPktSize (fst (snd filled)) (snd (snd filled)))
               else recvDataPkt_scan totalPktSize dataPkt (snd (COMMS_read rx1)))
            else recvDataPkt_scan totalPktSize dataPkt rx1)
      else (False, dataPkt, rxb))"
  by pat_completeness auto
termination
proof (relation "measure (\<lambda>(totalPktSize, dataPkt, rxb). length rxb)", goal_cases)
  case 1
  show ?case by simp
next
  case (2 totalPktSize dataPkt rxb incomingByte rx1 filled)
  obtain b bs where rxb: "rxb = b # bs" using 2(1) by (cases rxb) auto
  have "length (snd (snd filled)) \<le> length (snd (COMMS_read rx1))"
    unfolding 2(6) by (rule recvDataPkt_fill_length)
  also have "\<dots> \<le> length rx1" by (cases rx1) auto
  also have "\<dots> < length rxb" using 2(3) rxb by simp
  finally show ?case by (simp add: case_prod_beta)
next
  case (3 totalPktSize dataPkt rxb incomingByte rx1)
  obtain b bs where rxb: "rxb = b # bs" using 3(1) by (cases rxb) auto
  have "length (snd (COMMS_read rx1)) \<le> length rx1" by (cases rx1) auto
  also have "\<dots> < length rxb" using 3(3) rxb by simp
  finally show ?case by simp
next
  case (4 totalPktSize dataPkt rxb incomingByte rx1)
  then show ?case by (cases rxb) auto
qed

declare recvDataPkt_scan.simps [simp del]

text \<open>\<open>recvDataPkt(size)\<close>: it writes into the member \<open>mDataPkt\<close> and touches neither
  \<open>mRespStatus\<close> nor \<open>mRespParam\<close>.\<close>

definition recvDataPkt :: "(nat \<Rightarrow> byte list) \<Rightarrow> dword \<Rightarrow> fpm \<Rightarrow> bool \<times> fpm" where
  "recvDataPkt arrive sz s =
     (let totalPktSize = sz + 6;
          scanned = recvDataPkt_scan totalPktSize (mDataPkt s) (rx s @ arrive (polls s));
          isDone = fst scanned;
          dataPkt = fst (snd scanned);
          s1 = s\<lparr>mDataPkt := dataPkt, rx := snd (snd scanned), polls := polls s + 1\<rparr>;
          givenChkSum = (if isDone
                         then push_bit 8 (ucast (dataPkt (unat (totalPktSize - 1)))) OR
                              ucast (dataPkt (unat (totalPktSize - 2)))
                         else (0x0000 :: word16))
      in if isDone \<and> computeCheckSum dataPkt (unat (totalPktSize - 2)) \<noteq> givenChkSum
         then (False, s1)
         else (isDone, s1))"

section \<open>Command layer\<close>

text \<open>The polling loop every command runs after \<open>send\<close>:
  \<open>for (int i = 0; i < TIMEOUT && !recvResponsePkt(); ++i) delay(WAITTIME);\<close>
  The delay only lets time pass; what arrives meanwhile is seen by the next receive call.\<close>

function pollResponse :: "(nat \<Rightarrow> byte list) \<Rightarrow> nat \<Rightarrow> fpm \<Rightarrow> fpm" where
  "pollResponse arrive i s =
     (if i < TIMEOUT then
        (if fst (recvResponsePkt arrive s) then snd (recvResponsePkt arrive s)
         else pollResponse arrive (i + 1) (snd (recvResponsePkt arrive s)))
      else s)"
  by pat_completeness auto
termination
  by (relation "measure (\<lambda>(arrive, i, s). TIMEOUT - i)") auto

declare pollResponse.simps [simp del]

text \<open>The same loop, read for its counter: the value of \<open>i\<close> when the loop ends. It is
  \<open>TIMEOUT\<close> exactly when the retry count is used up, no receive call having returned
  true.\<close>

function pollResponse_count :: "(nat \<Rightarrow> byte list) \<Rightarrow> nat \<Rightarrow> fpm \<Rightarrow> nat" where
  "pollResponse_count arrive i s =
     (if i < TIMEOUT then
        (if fst (recvResponsePkt arrive s) then i
         else pollResponse_count arrive (i + 1) (snd (recvResponsePkt arrive s)))
      else i)"
  by pat_completeness auto
termination
  by (relation "measure (\<lambda>(arrive, i, s). TIMEOUT - i)") auto

declare pollResponse_count.simps [simp del]

text \<open>The serial-identifier check of \<open>open\<close>:
  \<open>for (i = 8; i < 24 && (mDataPkt[i] == 0x00); ++i);\<close>\<close>

function open_serialLoop :: "(nat \<Rightarrow> byte) \<Rightarrow> nat \<Rightarrow> nat" where
  "open_serialLoop dataPkt i =
     (if i < 24 \<and> dataPkt i = 0x00 then open_serialLoop dataPkt (i + 1) else i)"
  by pat_completeness auto
termination
  by (relation "measure (\<lambda>(dataPkt, i). 24 - i)") auto

declare open_serialLoop.simps [simp del]

definition "open" :: "(nat \<Rightarrow> byte list) \<Rightarrow> bool \<Rightarrow> fpm \<Rightarrow> bool \<times> fpm" where
  "open arrive errChk s =
     (let s1 = snd (send CMD_OPEN (if errChk then 1 else 0) True s);
          s2 = pollResponse arrive 0 s1
      in if errChk \<and> mRespStatus s2 then
           (let received = recvDataPkt arrive 24 s2;
                success = fst received;
                s3 = snd received
            in if success then (success \<and> open_serialLoop (mDataPkt s3) 8 \<noteq> 24, s3)
               else (success, s3))
         else (mRespStatus s2, s2))"

definition close :: "(nat \<Rightarrow> byte list) \<Rightarrow> fpm \<Rightarrow> bool \<times> fpm" where
  "close arrive s =
     (let s1 = snd (send CMD_CLOSE 0x00000000 True s);
          s2 = pollResponse arrive 0 s1
      in (mRespStatus s2, s2))"

definition powerCMOS :: "(nat \<Rightarrow> byte list) \<Rightarrow> bool \<Rightarrow> fpm \<Rightarrow> bool \<times> fpm" where
  "powerCMOS arrive on s =
     (let s1 = snd (send CMD_CMOS_LED (if on then 1 else 0) True s);
          s2 = pollResponse arrive 0 s1
      in (mRespStatus s2, s2))"

text \<open>\<open>changeBaudrate\<close> closes and reopens the port between sending and polling;
  \<open>COMMS.end()\<close> discards what is waiting in the receive buffer, and the hardware port
  is ready as soon as \<open>COMMS.begin\<close> returns.\<close>

definition changeBaudrate :: "(nat \<Rightarrow> byte list) \<Rightarrow> dword \<Rightarrow> fpm \<Rightarrow> bool \<times> fpm" where
  "changeBaudrate arrive baud s =
     (let s1 = snd (send CMD_CHANGE_BAUDRATE baud True s);
          s1' = s1\<lparr>rx := []\<rparr>;
          s2 = pollResponse arrive 0 s1'
      in (mRespStatus s2, s2))"

definition getEnrollCount :: "(nat \<Rightarrow> byte list) \<Rightarrow> fpm \<Rightarrow> bool \<times> fpm" where
  "getEnrollCount arrive s =
     (let s1 = snd (send CMD_GET_ENROLL_COUNT 0x00000000 True s);
          s2 = pollResponse arrive 0 s1
      in (mRespStatus s2, s2))"

definition isIDEnrolled :: "(nat \<Rightarrow> byte list) \<Rightarrow> dword \<Rightarrow> fpm \<Rightarrow> bool \<times> fpm" where
  "isIDEnrolled arrive ident s =
     (let s1 = snd (send CMD_CHECK_ENROLLED ident True s);
          s2 = pollResponse arrive 0 s1
      in (mRespStatus s2, s2))"

definition startEnrollment :: "(nat \<Rightarrow> byte list) \<Rightarrow> dword \<Rightarrow> fpm \<Rightarrow> bool \<times> fpm" where
  "startEnrollment arrive ident s =
     (let s1 = snd (send CMD_ENROLL_START ident True s);
          s2 = pollResponse arrive 0 s1;
          s3 = (if mRespStatus s2 then s2\<lparr>mEnrollmentStage := 0\<rparr> else s2)
      in (mRespStatus s3, s3))"

definition createEnrollmentTemplate :: "(nat \<Rightarrow> byte list) \<Rightarrow> fpm \<Rightarrow> bool \<times> fpm" where
  "createEnrollmentTemplate arrive s =
     (if mEnrollmentStage s = 0 \<or> mEnrollmentStage s = 1 \<or> mEnrollmentStage s = 2 then
        (let s1 = (if mEnrollmentStage s = 0 then snd (send CMD_ENROLL1 0x00000000 True s)
                   else if mEnrollmentStage s = 1 then snd (send CMD_ENROLL2 0x00000000 True s)
                   else snd (send CMD_ENROLL3 0x00000000 True s));
             s2 = pollResponse arrive 0 s1;
             s3 = (if mRespStatus s2 then s2\<lparr>mEnrollmentStage := mEnrollmentStage s2 + 1\<rparr>
                   else s2)
         in (mRespStatus s3, s3))
      else (False, s))"

definition isFingerPressed :: "(nat \<Rightarrow> byte list) \<Rightarrow> fpm \<Rightarrow> bool \<times> fpm" where
  "isFingerPressed arrive s =
     (let s1 = snd (send CMD_IS_PRESS_FINGER 0x00000000 True s);
          s2 = pollResponse arrive 0 s1;
          s3 = (if mRespStatus s2 \<and> mRespParam s2 \<noteq> 0
                then s2\<lparr>mRespParam := NACK_FINGER_IS_NOT_PRESSED, mRespStatus := False\<rparr>
                else s2)
      in (mRespStatus s3, s3))"

definition captureFingerprint :: "(nat \<Rightarrow> byte list) \<Rightarrow> bool \<Rightarrow> fpm \<Rightarrow> bool \<times> fpm" where
  "captureFingerprint arrive highQual s =
     (let s1 = snd (send CMD_CAPTURE_FINGER (if highQual then 1 else 0) True s);
          s2 = pollResponse arrive 0 s1
      in (mRespStatus s2, s2))"

definition deleteID :: "(nat \<Rightarrow> byte list) \<Rightarrow> dword \<Rightarrow> fpm \<Rightarrow> bool \<times> fpm" where
  "deleteID arrive ident s =
     (let s1 = snd (send CMD_DELETE_ID ident True s);
          s2 = pollResponse arrive 0 s1
      in (mRespStatus s2, s2))"

definition deleteAll :: "(nat \<Rightarrow> byte list) \<Rightarrow> fpm \<Rightarrow> bool \<times> fpm" where
  "deleteAll arrive s =
     (let s1 = snd (send CMD_DELETE_ALL 0x00000000 True s);
          s2 = pollResponse arrive 0 s1
      in (mRespStatus s2, s2))"

definition verify :: "(nat \<Rightarrow> byte list) \<Rightarrow> dword \<Rightarrow> fpm \<Rightarrow> bool \<times> fpm" where
  "verify arrive ident s =
     (let s1 = snd (send CMD_VERIFY ident True s);
          s2 = pollResponse arrive 0 s1
      in (mRespStatus s2, s2))"

definition identify :: "(nat \<Rightarrow> byte list) \<Rightarrow> fpm \<Rightarrow> bool \<times> fpm" where
  "identify arrive s =
     (let s1 = snd (send CMD_IDENTIFY 0x00000000 True s);
          s2 = pollResponse arrive 0 s1
      in (mRespStatus s2, s2))"

text \<open>The public single-command operations, as one type, so that a statement can range
  over all of them. \<open>verifyTemplate\<close> and \<open>identifyTemplate\<close> exchange nothing with the
  device and are left out.\<close>

datatype operation =
    Open bool | Close | PowerCMOS bool | ChangeBaudrate dword | GetEnrollCount
  | IsIDEnrolled dword | StartEnrollment dword | CreateEnrollmentTemplate | IsFingerPressed
  | CaptureFingerprint bool | DeleteID dword | DeleteAll | Verify dword | Identify

fun perform :: "(nat \<Rightarrow> byte list) \<Rightarrow> operation \<Rightarrow> fpm \<Rightarrow> bool \<times> fpm" where
  "perform arrive (Open errChk) s = open arrive errChk s"
| "perform arrive Close s = close arrive s"
| "perform arrive (PowerCMOS on) s = powerCMOS arrive on s"
| "perform arrive (ChangeBaudrate baud) s = changeBaudrate arrive baud s"
| "perform arrive GetEnrollCount s = getEnrollCount arrive s"
| "perform arrive (IsIDEnrolled ident) s = isIDEnrolled arrive ident s"
| "perform arrive (StartEnrollment ident) s = startEnrollment arrive ident s"
| "perform arrive CreateEnrollmentTemplate s = createEnrollmentTemplate arrive s"
| "perform arrive IsFingerPressed s = isFingerPressed arrive s"
| "perform arrive (CaptureFingerprint highQual) s = captureFingerprint arrive highQual s"
| "perform arrive (DeleteID ident) s = deleteID arrive ident s"
| "perform arrive DeleteAll s = deleteAll arrive s"
| "perform arrive (Verify ident) s = verify arrive ident s"
| "perform arrive Identify s = identify arrive s"

section \<open>Enrollment workflow\<close>

text \<open>The loop of the \<open>REMOVE_FINGER\<close> state:
  \<open>for (i = 0; i < 5 && !isFingerPressed(); ++i);\<close>\<close>

function removeFingerLoop :: "(nat \<Rightarrow> byte list) \<Rightarrow> nat \<Rightarrow> fpm \<Rightarrow> nat \<times> fpm" where
  "removeFingerLoop arrive i s =
     (if i < 5 then
        (if \<not> fst (isFingerPressed arrive s)
         then removeFingerLoop arrive (i + 1) (snd (isFingerPressed arrive s))
         else (i, snd (isFingerPressed arrive s)))
      else (i, s))"
  by pat_completeness auto
termination
  by (relation "measure (\<lambda>(arrive, i, s). 5 - i)") auto

declare removeFingerLoop.simps [simp del]

text \<open>The local variables of \<open>enrollSequence\<close> together with the module. Calls of the
  optional progress sink \<open>out\<close> and the debug prints do not influence any of them and are
  not modelled.\<close>

record enroll_vars =
  state :: ENROLL_STATE
  success :: bool
  isDone :: bool
  module :: fpm

text \<open>One pass through the \<open>switch\<close> inside \<open>while (!done)\<close>.\<close>

definition enrollStep :: "(nat \<Rightarrow> byte list) \<Rightarrow> dword \<Rightarrow> enroll_vars \<Rightarrow> enroll_vars" where
  "enrollStep arrive ident v =
     (case state v of
        START \<Rightarrow>
          (let r = startEnrollment arrive ident (module v)
           in if fst r then v\<lparr>state := REMOVE_FINGER, module := snd r\<rparr>
              else v\<lparr>success := False, isDone := True, module := snd r\<rparr>)
      | CAPTURE \<Rightarrow>
          (let r1 = powerCMOS arrive True (module v);
               v1 = (if \<not> fst r1 then v\<lparr>success := False, isDone := True\<rparr> else v);
               r2 = captureFingerprint arrive True (snd r1)
           in if fst r2 then v1\<lparr>state := ENROLL, module := snd r2\<rparr>
              else if mRespParam (snd r2) = NACK_COMM_ERR
                   then v1\<lparr>success := False, isDone := True, module := snd r2\<rparr>
                   else v1\<lparr>module := snd r2\<rparr>)
      | ENROLL \<Rightarrow>
          (let r1 = powerCMOS arrive False (module v);
               v1 = (if \<not> fst r1 then v\<lparr>success := False, isDone := True\<rparr> else v);
               r2 = createEnrollmentTemplate arrive (snd r1)
           in if fst r2 then
                (if mEnrollmentStage (snd r2) = 3 then v1\<lparr>state := COMPLETE, module := snd r2\<rparr>
                 else v1\<lparr>state := REMOVE_FINGER, module := snd r2\<rparr>)
              else if mRespParam (snd r2) = NACK_ENROLL_FAILED \<or>
                      mRespParam (snd r2) = NACK_BAD_FINGER
                   then v1\<lparr>state := CAPTURE, module := snd r2\<rparr>
                   else v1\<lparr>success := False, isDone := True, module := snd r2\<rparr>)
      | COMPLETE \<Rightarrow> v\<lparr>isDone := True\<rparr>
      | REMOVE_FINGER \<Rightarrow>
          (let r = removeFingerLoop arrive 0 (module v)
           in if fst r = 5 then
                (if mRespParam (snd r) = NACK_FINGER_IS_NOT_PRESSED
                 then v\<lparr>state := CAPTURE, module := snd r\<rparr>
                 else v\<lparr>success := False, isDone := True, module := snd r\<rparr>)
              else v\<lparr>module := snd r\<rparr>))"

text \<open>\<open>while (!done)\<close> has no bound of its own: the result is \<open>None\<close> when the loop
  never ends.\<close>

partial_function (option) enrollWhile ::
  "(nat \<Rightarrow> byte list) \<Rightarrow> dword \<Rightarrow> enroll_vars \<Rightarrow> enroll_vars option" where
  "enrollWhile arrive ident v =
     (if isDone v then Some v else enrollWhile arrive ident (enrollStep arrive ident v))"

declare enrollWhile.simps [code]

definition enrollSequence :: "(nat \<Rightarrow> byte list) \<Rightarrow> dword \<Rightarrow> fpm \<Rightarrow> (bool \<times> fpm) option" where
  "enrollSequence arrive ident s =
     map_option (\<lambda>v. (success v, module v))
       (enrollWhile arrive ident \<lparr>state = START, success = True, isDone = False, module = s\<rparr>)"


section \<open>Concrete inputs and the specification's wording\<close>

text \<open>A module state and device packets for the concrete instances below.\<close>

definition example_state :: fpm where
  "example_state =
     \<lparr>mRespPkt = replicate 12 0x00, mDataPkt = (\<lambda>i. 0x00), mRespStatus = False,
      mRespParam = 0, mEnrollmentStage = 0, rx = [], tx = [], polls = 0\<rparr>"

text \<open>The command packet as the specification words it, every multi-byte field most
  significant byte first; it is compared with what \<open>send\<close> writes.\<close>

definition spec_bigEndianPacket :: "word16 \<Rightarrow> dword \<Rightarrow> byte list" where
  "spec_bigEndianPacket cmd param =
     (let pkt10 = [0x55, 0xAA, 0x00, 0x01,
                   ucast (drop_bit 24 param), ucast (drop_bit 16 param),
                   ucast (drop_bit 8 param), ucast param,
                   ucast (drop_bit 8 cmd), ucast cmd];
          chk = computeCheckSum ((!) pkt10) 10
      in pkt10 @ [ucast (drop_bit 8 chk), ucast chk])"

text \<open>A delivery schedule from a list: the \<open>k\<close>-th receive call finds the \<open>k\<close>-th entry
  delivered, and nothing once the list is used up.\<close>

definition sched :: "byte list list \<Rightarrow> nat \<Rightarrow> byte list" where
  "sched xs k = (if k < length xs then xs ! k else [])"

text \<open>Response packets as the device frames them (least significant byte first): an
  acknowledgement with parameter 0, two negative acknowledgements, an acknowledgement with
  a wrong checksum, a checksum-valid packet whose status byte is \<open>0x00\<close>, and a 30-byte data
  packet with a wrong checksum.\<close>

definition pkt_ack0 :: "byte list" where
  "pkt_ack0 = [0x55, 0xAA, 0x01, 0x00, 0x00, 0x00, 0x00, 0x00, 0x30, 0x00, 0x30, 0x01]"

definition pkt_nack_not_pressed :: "byte list" where
  "pkt_nack_not_pressed = [0x55, 0xAA, 0x01, 0x00, 0x12, 0x10, 0x00, 0x00, 0x31, 0x00, 0x53, 0x01]"

definition pkt_nack_dev_err :: "byte list" where
  "pkt_nack_dev_err = [0x55, 0xAA, 0x01, 0x00, 0x0F, 0x10, 0x00, 0x00, 0x31, 0x00, 0x50, 0x01]"

definition pkt_bad_chksum :: "byte list" where
  "pkt_bad_chksum = [0x55, 0xAA, 0x01, 0x00, 0x00, 0x00, 0x00, 0x00, 0x30, 0x00, 0x31, 0x01]"

definition pkt_status_00 :: "byte list" where
  "pkt_status_00 = [0x55, 0xAA, 0x01, 0x00, 0x07, 0x00, 0x00, 0x00, 0x00, 0x00, 0x07, 0x01]"

definition data_bad_chksum :: "byte list" where
  "data_bad_chksum = [0x5A, 0xA5, 0x01, 0x00] @ replicate 24 0x07 @ [0x00, 0x00]"

text \<open>A device that answers every receive call with an acknowledgement of parameter 0
  (for the finger-press check: a finger is on the sensor).\<close>

definition always_pressed :: "nat \<Rightarrow> byte list" where
  "always_pressed k = pkt_ack0"

text \<open>An acknowledgement with parameter 5.\<close>

definition pkt_ack5 :: "byte list" where
  "pkt_ack5 = [0x55, 0xAA, 0x01, 0x00, 0x05, 0x00, 0x00, 0x00, 0x30, 0x00, 0x35, 0x01]"

text \<open>A device that acknowledges the start of enrollment, reports "finger not pressed"
  to the five finger-press checks, refuses to switch the illumination on with
  \<open>NACK_DEV_ERR\<close>, and acknowledges the capture request that follows.\<close>

definition cmos_failure_device :: "nat \<Rightarrow> byte list" where
  "cmos_failure_device =
     sched [pkt_ack0, pkt_nack_not_pressed, pkt_nack_not_pressed, pkt_nack_not_pressed,
            pkt_nack_not_pressed, pkt_nack_not_pressed, pkt_nack_dev_err, pkt_ack0]"

text \<open>A device that delivers the first four bytes of a response packet before every
  receive call and never the rest.\<close>

definition truncated_device :: "nat \<Rightarrow> byte list" where
  "truncated_device k = [0x55, 0xAA, 0x01, 0x00]"

section \<open>Wire codec properties\<close>

lemma mask_consts16: "(0x00FF::word16) = mask 8" "(0xFF00::word16) = push_bit 8 (mask 8)"
  by (simp_all add: mask_eq_exp_minus_1)

lemma mask_consts32: "(0x000000FF::dword) = mask 8" "(0x0000FF00::dword) = push_bit 8 (mask 8)"
   "(0x00FF0000::dword) = push_bit 16 (mask 8)" "(0xFF000000::dword) = push_bit 24 (mask 8)"
  by (simp_all add: mask_eq_exp_minus_1)

lemma flipEndianness16_involution: "flipEndianness16 (flipEndianness16 v) = v"
  unfolding flipEndianness16_def mask_consts16
  by (rule bit_word_eqI) (auto simp add: bit_simps)

lemma flipEndianness32_involution: "flipEndianness32 (flipEndianness32 v) = v"
  unfolding flipEndianness32_def mask_consts32
proof (rule bit_word_eqI, goal_cases)
  case (1 n)
  then consider "n < 8" | "8 \<le> n \<and> n < 16" | "16 \<le> n \<and> n < 24" | "24 \<le> n \<and> n < 32"
    by fastforce
  then show ?case
    by cases (auto simp add: bit_simps)
qed

text \<open>Claim C8: \<open>flipEndianness\<close> is an involution at both widths: flipping a 16-bit
  value twice, or a 32-bit value twice, gives the value back.\<close>

theorem flipEndianness_involution:
  "flipEndianness16 (flipEndianness16 v) = v \<and> flipEndianness32 (flipEndianness32 w) = w"
  by (simp add: flipEndianness16_involution flipEndianness32_involution)

lemma split16_flipEndianness16:
  "split16 (flipEndianness16 c) = [ucast c, ucast (drop_bit 8 c)]"
  unfolding split16_def flipEndianness16_def mask_consts16
  apply simp
  apply (rule conjI; rule bit_word_eqI)
   apply (auto simp add: bit_simps)
  done

lemma split32_flipEndianness32:
  "split32 (flipEndianness32 p) =
     [ucast p, ucast (drop_bit 8 p), ucast (drop_bit 16 p), ucast (drop_bit 24 p)]"
  unfolding split32_def flipEndianness32_def mask_consts32
  apply simp
  apply (intro conjI; rule bit_word_eqI)
     apply (auto simp add: bit_simps)
  done

lemma computeCheckSum_loop_sum:
  "computeCheckSum_loop arr sz i c = c + (\<Sum>k = i..<sz. ucast (arr k))"
proof (induction arr sz i c rule: computeCheckSum_loop.induct)
  case (1 arr sz i c)
  show ?case
  proof (cases "i < sz")
    case True
    then show ?thesis
      using 1 by (subst computeCheckSum_loop.simps) (simp add: sum.atLeast_Suc_lessThan add.assoc)
  next
    case False
    then show ?thesis by (subst computeCheckSum_loop.simps) simp
  qed
qed

lemma ucast_byte_of_nat: "(ucast (x::byte) :: word16) = of_nat (unat x)"
  by simp

lemma unat_sum_ucast:
  "unat (\<Sum>k = 0..<n. (ucast (arr k :: byte) :: word16)) = (\<Sum>k = 0..<n. unat (arr k)) mod 65536"
proof -
  have eq: "(\<Sum>k = 0..<n. (ucast (arr k) :: word16)) = of_nat (\<Sum>k = 0..<n. unat (arr k))"
    by (simp only: ucast_byte_of_nat of_nat_sum)
  show ?thesis by (simp only: eq unat_of_nat) simp
qed

lemma unat_computeCheckSum:
  "unat (computeCheckSum arr n) = (\<Sum>k = 0..<n. unat (arr k)) mod 65536"
  by (simp add: computeCheckSum_def computeCheckSum_loop_sum unat_sum_ucast)

text \<open>Claim C9: for a byte array \<open>b\<close> and a length \<open>n\<close> within it, \<open>computeCheckSum(b, n)\<close>
  is the arithmetic sum of \<open>b[0]\<close>, ..., \<open>b[n-1]\<close> modulo 65536.\<close>

theorem computeCheckSum_sum_mod:
  "n \<le> length b \<Longrightarrow>
     unat (computeCheckSum ((!) b) n) = sum_list (map unat (take n b)) mod 65536"
proof -
  assume n: "n \<le> length b"
  have "sum_list (map unat (take n b)) = (\<Sum>k = 0..<n. unat (b ! k))"
    using n by (simp add: sum_list_sum_nth atLeast0LessThan)
  then show ?thesis
    by (simp add: unat_computeCheckSum)
qed

text \<open>Three hundred bytes of \<open>0xFF\<close> add up to 76500, past 16 bits: the checksum wraps
  to 10964.\<close>

theorem computeCheckSum_sum_mod_witness:
  "300 \<le> length (replicate 300 (0xFF :: byte)) \<and>
   unat (computeCheckSum ((!) (replicate 300 (0xFF :: byte))) 300) = 10964"
  using computeCheckSum_sum_mod [of 300 "replicate 300 (0xFF :: byte)"]
  by (simp add: sum_list_replicate)

text \<open>Claim C2, as amended: with the default \<open>isBigEndian = true\<close>, \<open>send\<close> writes the start
  marker followed by the device identifier \<open>0x0001\<close>, the parameter, the command code and
  the checksum of the first ten bytes, each least significant byte first.\<close>

theorem send_packet_little_endian:
  "send cmd param True s =
     (True, s\<lparr>tx := tx s @
        (let pkt10 = [0x55, 0xAA, 0x01, 0x00,
                      ucast param, ucast (drop_bit 8 param),
                      ucast (drop_bit 16 param), ucast (drop_bit 24 param),
                      ucast cmd, ucast (drop_bit 8 cmd)];
             chk = computeCheckSum ((!) pkt10) 10
         in pkt10 @ [ucast chk, ucast (drop_bit 8 chk)])\<rparr>)"
  by (simp add: send_def cmdPacket_def Let_def split16_flipEndianness16 split32_flipEndianness32
      CMD_START_CODE_1_def CMD_START_CODE_2_def DEVICE_ID_LSB_def DEVICE_ID_MSB_def)

text \<open>Claim C2 as stated fails: the packet sent for \<open>CMD_OPEN\<close> with parameter 1 is not
  the big-endian packet.\<close>

theorem send_big_endian_counterexample:
  "tx (snd (send CMD_OPEN 0x00000001 True example_state)) =
     [0x55, 0xAA, 0x01, 0x00, 0x01, 0x00, 0x00, 0x00, 0x01, 0x00, 0x02, 0x01] \<and>
   spec_bigEndianPacket CMD_OPEN 0x00000001 =
     [0x55, 0xAA, 0x00, 0x01, 0x00, 0x00, 0x00, 0x01, 0x00, 0x01, 0x01, 0x02] \<and>
   tx (snd (send CMD_OPEN 0x00000001 True example_state)) \<noteq>
     tx example_state @ spec_bigEndianPacket CMD_OPEN 0x00000001"
  by code_simp


section \<open>Receiving: resynchronisation, checksum and status\<close>

lemma recvResponsePkt_scan_Nil: "recvResponsePkt_scan buff [] = (False, buff, [])"
  by (subst recvResponsePkt_scan.simps) simp

lemma recvResponsePkt_scan_skip:
  "b \<noteq> 0x55 \<Longrightarrow> recvResponsePkt_scan buff (b # bs) = recvResponsePkt_scan buff bs"
  by (subst recvResponsePkt_scan.simps) simp

lemma uint_byte_eq_AA: "(uint (c :: byte) = 0xAA) = (c = 0xAA)"
proof
  assume "uint c = 0xAA"
  then have "word_of_int (uint c) = (word_of_int 0xAA :: byte)" by simp
  then show "c = 0xAA" by simp
next
  assume "c = 0xAA"
  then show "uint c = 0xAA" by simp
qed

lemma recvResponsePkt_scan_marker:
  "recvResponsePkt_scan buff (0x55 # 0xAA # bs) =
     (let filled = recvResponsePkt_fill 2 (buff[0 := 0x55, 1 := 0xAA]) bs
      in if fst filled = 12 then (True, fst (snd filled), snd (snd filled))
         else recvResponsePkt_scan (fst (snd filled)) (snd (snd filled)))"
  by (subst recvResponsePkt_scan.simps) (simp add: Let_def)

lemma recvResponsePkt_scan_lone_55:
  "recvResponsePkt_scan buff [0x55] = (False, buff, [])"
  by (subst recvResponsePkt_scan.simps) (simp add: Let_def recvResponsePkt_scan_Nil)

lemma recvResponsePkt_scan_55_other:
  "c \<noteq> 0xAA \<Longrightarrow>
     recvResponsePkt_scan buff (0x55 # c # bs) = recvResponsePkt_scan buff bs"
  by (subst recvResponsePkt_scan.simps) (simp add: Let_def uint_byte_eq_AA)

lemma recvResponsePkt_fill_enough:
  "length buff = 12 \<Longrightarrow> i \<le> 12 \<Longrightarrow> length xs = 12 - i \<Longrightarrow>
     recvResponsePkt_fill i buff (xs @ rest) = (12, take i buff @ xs, rest)"
proof (induction xs arbitrary: i buff)
  case Nil
  then show ?case by (subst recvResponsePkt_fill.simps) simp
next
  case (Cons x xs)
  then have i: "i < 12" by simp
  have "recvResponsePkt_fill i buff ((x # xs) @ rest) =
          recvResponsePkt_fill (i + 1) (buff[i := x]) (xs @ rest)"
    using i by (subst recvResponsePkt_fill.simps) simp
  also have "\<dots> = (12, take (i + 1) (buff[i := x]) @ xs, rest)"
    using Cons.prems i by (intro Cons.IH) auto
  also have "take (i + 1) (buff[i := x]) = take i buff @ [x]"
    using Cons.prems i by (simp add: take_Suc_conv_app_nth)
  finally show ?case by simp
qed

lemma recvResponsePkt_scan_garbage:
  "0x55 \<notin> set garbage \<Longrightarrow>
     recvResponsePkt_scan buff (garbage @ bs) = recvResponsePkt_scan buff bs"
  by (induction garbage) (auto simp: recvResponsePkt_scan_skip)

lemma recvResponsePkt_scan_packet:
  assumes "length buff = 12" "length pkt = 12" "pkt ! 0 = 0x55" "pkt ! 1 = 0xAA"
  shows "recvResponsePkt_scan buff (pkt @ rest) = (True, pkt, rest)"
proof -
  obtain body where pkt: "pkt = 0x55 # 0xAA # body" and body: "length body = 10"
    using assms(2-4) by (cases pkt; cases "tl pkt") auto
  have "recvResponsePkt_fill 2 (buff[0 := 0x55, 1 := 0xAA]) (body @ rest) =
          (12, take 2 (buff[0 := 0x55, 1 := 0xAA]) @ body, rest)"
    using assms(1) body by (intro recvResponsePkt_fill_enough) auto
  moreover have "take 2 (buff[0 := 0x55, 1 := 0xAA]) = [0x55, 0xAA]"
    using assms(1) by (cases buff; cases "tl buff") auto
  ultimately show ?thesis
    by (simp add: pkt recvResponsePkt_scan_marker)
qed

text \<open>Claim C1, as amended: when the bytes waiting for a receive call are garbage that holds
  no \<open>0x55\<close> byte, followed by one complete 12-byte response packet with a matching
  checksum, \<open>recvResponsePkt\<close> skips the garbage, reads exactly that packet, returns true and
  stores the packet's status and parameter.\<close>

theorem recvResponsePkt_resync:
  assumes "0x55 \<notin> set garbage"
    and "length pkt = 12" and "pkt ! 0 = 0x55" and "pkt ! 1 = 0xAA"
    and "computeCheckSum ((!) pkt) 10 = push_bit 8 (ucast (pkt ! 11)) OR ucast (pkt ! 10)"
    and "rx s @ arrive (polls s) = garbage @ pkt @ rest"
  shows "recvResponsePkt arrive s =
     (True, s\<lparr>rx := rest, polls := polls s + 1,
              mRespStatus := (pkt ! 8 \<noteq> 0x31),
              mRespParam := push_bit 24 (ucast (pkt ! 7)) OR push_bit 16 (ucast (pkt ! 6)) OR
                            push_bit 8 (ucast (pkt ! 5)) OR ucast (pkt ! 4),
              mRespPkt := (if pkt ! 8 \<noteq> 0x31 then pkt else mRespPkt s)\<rparr>)"
proof -
  have scan: "recvResponsePkt_scan (replicate 12 0x00) (rx s @ arrive (polls s)) = (True, pkt, rest)"
    using assms by (simp add: recvResponsePkt_scan_garbage recvResponsePkt_scan_packet)
  have "map ((!) pkt) [0..<12] = pkt"
    using assms(2) by (metis map_nth)
  then show ?thesis
    using assms(5) by (simp add: recvResponsePkt_def scan Let_def)
qed

text \<open>Three garbage bytes, an acknowledgement and one trailing byte.\<close>

theorem recvResponsePkt_resync_witness:
  "recvResponsePkt (sched [[0x00, 0xFF, 0x13] @ pkt_ack0 @ [0x09]]) example_state =
     (True, example_state\<lparr>rx := [0x09], polls := 1, mRespStatus := True, mRespParam := 0,
                           mRespPkt := pkt_ack0\<rparr>)"
proof -
  have h1: "0x55 \<notin> set [0x00, 0xFF, 0x13 :: byte]" by simp
  have h2: "length pkt_ack0 = 12" and h3: "pkt_ack0 ! 0 = 0x55" and h4: "pkt_ack0 ! 1 = 0xAA"
    by (simp_all add: pkt_ack0_def)
  have h5: "computeCheckSum ((!) pkt_ack0) 10 =
              push_bit 8 (ucast (pkt_ack0 ! 11)) OR ucast (pkt_ack0 ! 10)"
    by code_simp
  have h6: "rx example_state @ sched [[0x00, 0xFF, 0x13] @ pkt_ack0 @ [0x09]] (polls example_state)
              = [0x00, 0xFF, 0x13] @ pkt_ack0 @ [0x09]"
    by (simp add: example_state_def sched_def)
  show ?thesis
    using recvResponsePkt_resync [where garbage = "[0x00, 0xFF, 0x13]" and pkt = pkt_ack0
        and rest = "[0x09]" and s = example_state
        and arrive = "sched [[0x00, 0xFF, 0x13] @ pkt_ack0 @ [0x09]]", OF h1 h2 h3 h4 h5 h6]
    by (simp add: pkt_ack0_def example_state_def)
qed

text \<open>Claim C1 as stated fails: garbage \<open>55 AA\<close> is taken for the start marker, so the
  call frames ten bytes of the real packet behind it and reports a communications error;
  garbage \<open>55\<close> makes the scan swallow the real packet's first byte and the call reports
  that nothing was received.\<close>

theorem recvResponsePkt_resync_counterexample:
  "fst (recvResponsePkt (sched [[0x55, 0xAA] @ pkt_ack0]) example_state) = True \<and>
   mRespStatus (snd (recvResponsePkt (sched [[0x55, 0xAA] @ pkt_ack0]) example_state)) = False \<and>
   mRespParam (snd (recvResponsePkt (sched [[0x55, 0xAA] @ pkt_ack0]) example_state))
     = NACK_COMM_ERR \<and>
   fst (recvResponsePkt (sched [[0x55] @ pkt_ack0]) example_state) = False \<and>
   mRespParam (snd (recvResponsePkt (sched [[0x55] @ pkt_ack0]) example_state))
     = NACK_NOT_RECVD"
  by code_simp

text \<open>Claim C3, as amended: a complete response packet whose checksum does not match makes
  \<open>recvResponsePkt\<close> store failure and \<open>NACK_COMM_ERR\<close> (it returns true, a complete packet
  having been read); a complete data packet whose checksum does not match makes
  \<open>recvDataPkt\<close> return false, the stored status and code left as they were.\<close>

theorem checksum_mismatch_reported:
  "(recvResponsePkt_scan (replicate 12 0x00) (rx s @ arrive (polls s)) = (True, buff, rest) \<and>
    computeCheckSum ((!) buff) 10 \<noteq> push_bit 8 (ucast (buff ! 11)) OR ucast (buff ! 10)
    \<longrightarrow> recvResponsePkt arrive s =
          (True, s\<lparr>rx := rest, polls := polls s + 1,
                   mRespStatus := False, mRespParam := NACK_COMM_ERR\<rparr>)) \<and>
   (recvDataPkt_scan (sz + 6) (mDataPkt s) (rx s @ arrive (polls s)) = (True, dataPkt, rest) \<and>
    computeCheckSum dataPkt (unat (sz + 6 - 2)) \<noteq>
      push_bit 8 (ucast (dataPkt (unat (sz + 6 - 1)))) OR ucast (dataPkt (unat (sz + 6 - 2)))
    \<longrightarrow> recvDataPkt arrive sz s =
          (False, s\<lparr>mDataPkt := dataPkt, rx := rest, polls := polls s + 1\<rparr>))"
  by (simp add: recvResponsePkt_def recvDataPkt_def Let_def)

text \<open>Both halves at a concrete packet with a wrong checksum.\<close>

theorem checksum_mismatch_reported_witness:
  "recvResponsePkt (sched [pkt_bad_chksum]) example_state =
     (True, example_state\<lparr>rx := [], polls := 1,
                           mRespStatus := False, mRespParam := NACK_COMM_ERR\<rparr>) \<and>
   fst (recvDataPkt (sched [data_bad_chksum]) 24 example_state) = False \<and>
   mRespStatus (snd (recvDataPkt (sched [data_bad_chksum]) 24 example_state)) =
     mRespStatus example_state \<and>
   mRespParam (snd (recvDataPkt (sched [data_bad_chksum]) 24 example_state)) =
     mRespParam example_state"
proof -
  have r1: "recvResponsePkt_scan (replicate 12 0x00)
              (rx example_state @ sched [pkt_bad_chksum] (polls example_state)) =
            (True, pkt_bad_chksum, [])"
    by code_simp
  have r2: "computeCheckSum ((!) pkt_bad_chksum) 10 \<noteq>
              push_bit 8 (ucast (pkt_bad_chksum ! 11)) OR ucast (pkt_bad_chksum ! 10)"
    by code_simp
  define scanned where "scanned = recvDataPkt_scan (24 + 6) (mDataPkt example_state)
              (rx example_state @ sched [data_bad_chksum] (polls example_state))"
  have d1a: "fst scanned = True" and d1b: "snd (snd scanned) = []"
    unfolding scanned_def by code_simp+
  have d1: "scanned = (True, fst (snd scanned), [])"
    using d1a d1b by (metis prod.collapse)
  have d2: "computeCheckSum (fst (snd scanned)) (unat (24 + 6 - 2 :: dword)) \<noteq>
            push_bit 8 (ucast (fst (snd scanned) (unat (24 + 6 - 1 :: dword)))) OR
            ucast (fst (snd scanned) (unat (24 + 6 - 2 :: dword)))"
    unfolding scanned_def by code_simp
  from checksum_mismatch_reported [where s = example_state and arrive = "sched [pkt_bad_chksum]"
     and buff = pkt_bad_chksum and rest = "[]"]
  have "recvResponsePkt (sched [pkt_bad_chksum]) example_state =
     (True, example_state\<lparr>rx := [], polls := polls example_state + 1,
                           mRespStatus := False, mRespParam := NACK_COMM_ERR\<rparr>)"
    using r1 r2 by blast
  moreover
  from checksum_mismatch_reported [where s = example_state and arrive = "sched [data_bad_chksum]"
     and sz = 24 and dataPkt = "fst (snd scanned)" and rest = "[]"]
  have "recvDataPkt (sched [data_bad_chksum]) 24 example_state =
          (False, example_state\<lparr>mDataPkt := fst (snd scanned), rx := [],
                                 polls := polls example_state + 1\<rparr>)"
    using d1 d2 unfolding scanned_def by blast
  ultimately show ?thesis
    by (simp add: example_state_def)
qed

text \<open>Claim C3 as stated fails: on a checksum mismatch \<open>recvResponsePkt\<close> returns true, and
  \<open>recvDataPkt\<close> leaves a successful status in place and stores no communications-error
  code.\<close>

theorem checksum_mismatch_counterexample:
  "fst (recvResponsePkt (sched [pkt_bad_chksum]) example_state) = True \<and>
   fst (recvDataPkt (sched [data_bad_chksum]) 24 (example_state\<lparr>mRespStatus := True\<rparr>)) = False \<and>
   mRespStatus (snd (recvDataPkt (sched [data_bad_chksum]) 24 (example_state\<lparr>mRespStatus := True\<rparr>)))
     = True \<and>
   mRespParam (snd (recvDataPkt (sched [data_bad_chksum]) 24 (example_state\<lparr>mRespStatus := True\<rparr>)))
     \<noteq> NACK_COMM_ERR"
  by code_simp

text \<open>Claim C7, as amended: a complete, checksum-valid response packet is a negative
  acknowledgement exactly when its status byte is \<open>NACK\<close> (\<open>0x31\<close>); every other status byte
  is taken as an acknowledgement. In both cases the parameter field is stored, so a negative
  acknowledgement leaves its error code with the status set to failure.\<close>

theorem recvResponsePkt_status_decoding:
  assumes "recvResponsePkt_scan (replicate 12 0x00) (rx s @ arrive (polls s)) = (True, buff, rest)"
    and "computeCheckSum ((!) buff) 10 = push_bit 8 (ucast (buff ! 11)) OR ucast (buff ! 10)"
  shows "fst (recvResponsePkt arrive s) = True \<and>
         mRespStatus (snd (recvResponsePkt arrive s)) = (buff ! 8 \<noteq> NACK) \<and>
         mRespParam (snd (recvResponsePkt arrive s)) =
           push_bit 24 (ucast (buff ! 7)) OR push_bit 16 (ucast (buff ! 6)) OR
           push_bit 8 (ucast (buff ! 5)) OR ucast (buff ! 4)"
  using assms by (simp add: recvResponsePkt_def Let_def NACK_def)

text \<open>A negative acknowledgement carrying \<open>NACK_FINGER_IS_NOT_PRESSED\<close>.\<close>

theorem recvResponsePkt_status_decoding_witness:
  "fst (recvResponsePkt (sched [pkt_nack_not_pressed]) example_state) = True \<and>
   mRespStatus (snd (recvResponsePkt (sched [pkt_nack_not_pressed]) example_state)) = False \<and>
   mRespParam (snd (recvResponsePkt (sched [pkt_nack_not_pressed]) example_state)) =
     NACK_FINGER_IS_NOT_PRESSED"
proof -
  have h1: "recvResponsePkt_scan (replicate 12 0x00)
              (rx example_state @ sched [pkt_nack_not_pressed] (polls example_state)) =
            (True, pkt_nack_not_pressed, [])"
    by code_simp
  have h2: "computeCheckSum ((!) pkt_nack_not_pressed) 10 =
              push_bit 8 (ucast (pkt_nack_not_pressed ! 11)) OR ucast (pkt_nack_not_pressed ! 10)"
    by code_simp
  show ?thesis
    using recvResponsePkt_status_decoding [where s = example_state
        and arrive = "sched [pkt_nack_not_pressed]" and buff = pkt_nack_not_pressed
        and rest = "[]", OF h1 h2]
    by (simp add: pkt_nack_not_pressed_def NACK_def NACK_FINGER_IS_NOT_PRESSED_def)
qed

text \<open>Claim C7 as stated fails: a checksum-valid packet whose status byte is \<open>0x00\<close>, not
  \<open>ACK\<close>, is stored as a success.\<close>

theorem recvResponsePkt_ack_counterexample:
  "pkt_status_00 ! 8 \<noteq> ACK \<and>
   computeCheckSum ((!) pkt_status_00) 10 =
     push_bit 8 (ucast (pkt_status_00 ! 11)) OR ucast (pkt_status_00 ! 10) \<and>
   fst (recvResponsePkt (sched [pkt_status_00]) example_state) = True \<and>
   mRespStatus (snd (recvResponsePkt (sched [pkt_status_00]) example_state)) = True \<and>
   mRespParam (snd (recvResponsePkt (sched [pkt_status_00]) example_state)) = 7"
  by code_simp


section \<open>Command layer properties\<close>

lemma polls_recvResponsePkt [simp]: "polls (snd (recvResponsePkt arrive s)) = polls s + 1"
  by (simp add: recvResponsePkt_def Let_def)

lemma stage_recvResponsePkt [simp]:
  "mEnrollmentStage (snd (recvResponsePkt arrive s)) = mEnrollmentStage s"
  by (simp add: recvResponsePkt_def Let_def)

lemma recvResponsePkt_False:
  "\<not> fst (recvResponsePkt arrive s) \<Longrightarrow>
     \<not> mRespStatus (snd (recvResponsePkt arrive s)) \<and>
     mRespParam (snd (recvResponsePkt arrive s)) = NACK_NOT_RECVD"
  by (simp add: recvResponsePkt_def Let_def split: if_splits)

lemma polls_pollResponse: "polls (pollResponse arrive i s) \<le> polls s + (TIMEOUT - i)"
proof (induction arrive i s rule: pollResponse.induct)
  case (1 arrive i s)
  show ?case
  proof (cases "i < TIMEOUT")
    case False
    then show ?thesis by (subst pollResponse.simps) simp
  next
    case True
    show ?thesis
    proof (cases "fst (recvResponsePkt arrive s)")
      case rcvd: True
      then show ?thesis using True by (subst pollResponse.simps) simp
    next
      case nd: False
      have "polls (pollResponse arrive (i + 1) (snd (recvResponsePkt arrive s)))
              \<le> polls (snd (recvResponsePkt arrive s)) + (TIMEOUT - (i + 1))"
        by (rule 1 [OF True nd])
      then show ?thesis using True nd by (subst pollResponse.simps) simp
    qed
  qed
qed

lemma stage_pollResponse [simp]:
  "mEnrollmentStage (pollResponse arrive i s) = mEnrollmentStage s"
proof (induction arrive i s rule: pollResponse.induct)
  case (1 arrive i s)
  show ?case
  proof (cases "i < TIMEOUT \<and> \<not> fst (recvResponsePkt arrive s)")
    case True
    then show ?thesis using 1 by (subst pollResponse.simps) simp
  next
    case False
    then show ?thesis by (subst pollResponse.simps) auto
  qed
qed

lemma send_fields [simp]:
  "polls (snd (send cmd param be s)) = polls s"
  "rx (snd (send cmd param be s)) = rx s"
  "mEnrollmentStage (snd (send cmd param be s)) = mEnrollmentStage s"
  "mRespStatus (snd (send cmd param be s)) = mRespStatus s"
  "mRespParam (snd (send cmd param be s)) = mRespParam s"
  by (simp_all add: send_def Let_def)

lemma polls_pollResponse_0: "polls (pollResponse arrive 0 s) \<le> polls s + TIMEOUT"
  using polls_pollResponse [of arrive 0 s] by simp

lemma polls_recvDataPkt [simp]: "polls (snd (recvDataPkt arrive sz s)) = polls s + 1"
  by (simp add: recvDataPkt_def Let_def)

lemma stage_recvDataPkt [simp]:
  "mEnrollmentStage (snd (recvDataPkt arrive sz s)) = mEnrollmentStage s"
  by (simp add: recvDataPkt_def Let_def)

text \<open>A receive call that finds no \<open>0x55\<close> byte waiting.\<close>

lemma recvResponsePkt_scan_no_marker:
  "0x55 \<notin> set bs \<Longrightarrow> recvResponsePkt_scan buff bs = (False, buff, [])"
  using recvResponsePkt_scan_garbage [of bs buff "[]"]
  by (simp add: recvResponsePkt_scan_Nil)

lemma recvResponsePkt_no_marker:
  "0x55 \<notin> set (rx s) \<Longrightarrow> 0x55 \<notin> set (arrive (polls s)) \<Longrightarrow>
     recvResponsePkt arrive s =
       (False, s\<lparr>rx := [], polls := polls s + 1,
                 mRespStatus := False, mRespParam := NACK_NOT_RECVD\<rparr>)"
  by (simp add: recvResponsePkt_def Let_def recvResponsePkt_scan_no_marker)

lemma pollResponse_no_marker:
  "i < TIMEOUT \<Longrightarrow> 0x55 \<notin> set (rx s) \<Longrightarrow>
   (\<And>k. polls s \<le> k \<Longrightarrow> k < polls s + (TIMEOUT - i) \<Longrightarrow> 0x55 \<notin> set (arrive k)) \<Longrightarrow>
     pollResponse arrive i s =
       s\<lparr>rx := [], polls := polls s + (TIMEOUT - i),
          mRespStatus := False, mRespParam := NACK_NOT_RECVD\<rparr>"
proof (induction arrive i s rule: pollResponse.induct)
  case (1 arrive i s)
  let ?s' = "s\<lparr>rx := [], polls := polls s + 1, mRespStatus := False, mRespParam := NACK_NOT_RECVD\<rparr>"
  have r: "recvResponsePkt arrive s = (False, ?s')"
    using 1(2,3) 1(4) [of "polls s"] by (intro recvResponsePkt_no_marker) auto
  have unfold: "pollResponse arrive i s = pollResponse arrive (i + 1) ?s'"
    using 1(2) r by (subst pollResponse.simps) simp
  show ?case
  proof (cases "i + 1 < TIMEOUT")
    case True
    have "pollResponse arrive (i + 1) ?s' =
            ?s'\<lparr>rx := [], polls := polls ?s' + (TIMEOUT - (i + 1)),
                  mRespStatus := False, mRespParam := NACK_NOT_RECVD\<rparr>"
      using 1(1) [OF 1(2)] r True 1(4) by simp
    then show ?thesis using unfold True by simp
  next
    case False
    then have "pollResponse arrive (i + 1) ?s' = ?s'"
      by (subst pollResponse.simps) simp
    then show ?thesis using unfold False 1(2) by simp
  qed
qed

lemmas op_defs = open_def close_def powerCMOS_def changeBaudrate_def getEnrollCount_def
  isIDEnrolled_def startEnrollment_def createEnrollmentTemplate_def isFingerPressed_def
  captureFingerprint_def deleteID_def deleteAll_def verify_def identify_def

lemma polls_exchange:
  "polls (pollResponse arrive 0 (snd (send c p be s))) \<le> polls s + TIMEOUT"
  "polls (pollResponse arrive 0 ((snd (send c p be s))\<lparr>rx := bs\<rparr>)) \<le> polls s + TIMEOUT"
  using polls_pollResponse_0 [of arrive "snd (send c p be s)"]
    polls_pollResponse_0 [of arrive "(snd (send c p be s))\<lparr>rx := bs\<rparr>"]
  by simp_all

lemma polls_perform:
  "polls (snd (perform arrive op s)) \<le>
     polls s + (if op = Open True then TIMEOUT + 1 else TIMEOUT)"
  by (cases op) (simp_all add: op_defs Let_def polls_exchange le_SucI)

lemma stage_perform:
  "mEnrollmentStage (snd (perform arrive op s)) =
     (if op = CreateEnrollmentTemplate \<and> fst (perform arrive op s) then mEnrollmentStage s + 1
      else if (\<exists>ident. op = StartEnrollment ident) \<and> fst (perform arrive op s) then 0
      else mEnrollmentStage s)"
  by (cases op) (simp_all add: op_defs Let_def)

lemma createEnrollmentTemplate_stage:
  "fst (createEnrollmentTemplate arrive s) \<Longrightarrow>
     mEnrollmentStage s = 0 \<or> mEnrollmentStage s = 1 \<or> mEnrollmentStage s = 2"
  by (simp add: createEnrollmentTemplate_def split: if_splits)

text \<open>Claim C5: \<open>mEnrollmentStage\<close> goes up by exactly 1, from 0, 1 or 2 and without
  wrapping, when \<open>createEnrollmentTemplate\<close> succeeds, and stays as it is when that call
  fails; it is set to 0 when \<open>startEnrollment\<close> succeeds and stays as it is when that call
  fails; no other operation changes it.\<close>

theorem enrollment_stage_changes:
  "(fst (createEnrollmentTemplate arrive s) \<longrightarrow>
      (mEnrollmentStage s = 0 \<or> mEnrollmentStage s = 1 \<or> mEnrollmentStage s = 2) \<and>
      mEnrollmentStage (snd (createEnrollmentTemplate arrive s)) = mEnrollmentStage s + 1 \<and>
      unat (mEnrollmentStage (snd (createEnrollmentTemplate arrive s))) =
        unat (mEnrollmentStage s) + 1) \<and>
   (\<not> fst (createEnrollmentTemplate arrive s) \<longrightarrow>
      mEnrollmentStage (snd (createEnrollmentTemplate arrive s)) = mEnrollmentStage s) \<and>
   (fst (startEnrollment arrive ident s) \<longrightarrow>
      mEnrollmentStage (snd (startEnrollment arrive ident s)) = 0) \<and>
   (\<not> fst (startEnrollment arrive ident s) \<longrightarrow>
      mEnrollmentStage (snd (startEnrollment arrive ident s)) = mEnrollmentStage s) \<and>
   (op \<noteq> CreateEnrollmentTemplate \<and> (\<forall>i. op \<noteq> StartEnrollment i) \<longrightarrow>
      mEnrollmentStage (snd (perform arrive op s)) = mEnrollmentStage s)"
proof -
  have c: "fst (createEnrollmentTemplate arrive s) \<Longrightarrow>
      unat (mEnrollmentStage s + 1) = unat (mEnrollmentStage s) + 1"
    using createEnrollmentTemplate_stage [of arrive s] by auto
  have p: "op \<noteq> CreateEnrollmentTemplate \<and> (\<forall>i. op \<noteq> StartEnrollment i) \<longrightarrow>
      mEnrollmentStage (snd (perform arrive op s)) = mEnrollmentStage s"
    using stage_perform [of arrive op s] by auto
  show ?thesis
    using stage_perform [of arrive CreateEnrollmentTemplate s]
      stage_perform [of arrive "StartEnrollment ident" s]
      createEnrollmentTemplate_stage [of arrive s] c p
    by simp
qed

text \<open>Each case at a concrete exchange, starting from stage 2 or 0.\<close>

theorem enrollment_stage_changes_witness:
  "fst (createEnrollmentTemplate (sched [pkt_ack0]) (example_state\<lparr>mEnrollmentStage := 2\<rparr>)) \<and>
   mEnrollmentStage (snd (createEnrollmentTemplate (sched [pkt_ack0])
                            (example_state\<lparr>mEnrollmentStage := 2\<rparr>))) = 3 \<and>
   \<not> fst (createEnrollmentTemplate (sched [pkt_nack_dev_err]) example_state) \<and>
   mEnrollmentStage (snd (createEnrollmentTemplate (sched [pkt_nack_dev_err]) example_state)) = 0 \<and>
   fst (startEnrollment (sched [pkt_ack0]) 3 (example_state\<lparr>mEnrollmentStage := 2\<rparr>)) \<and>
   mEnrollmentStage (snd (startEnrollment (sched [pkt_ack0]) 3
                            (example_state\<lparr>mEnrollmentStage := 2\<rparr>))) = 0 \<and>
   \<not> fst (startEnrollment (sched [pkt_nack_dev_err]) 3 (example_state\<lparr>mEnrollmentStage := 2\<rparr>)) \<and>
   mEnrollmentStage (snd (startEnrollment (sched [pkt_nack_dev_err]) 3
                            (example_state\<lparr>mEnrollmentStage := 2\<rparr>))) = 2 \<and>
   mEnrollmentStage (snd (perform (sched [pkt_ack0]) IsFingerPressed
                            (example_state\<lparr>mEnrollmentStage := 2\<rparr>))) = 2"
proof -
  have h1: "fst (createEnrollmentTemplate (sched [pkt_ack0]) (example_state\<lparr>mEnrollmentStage := 2\<rparr>))"
    by code_simp
  have h2: "\<not> fst (createEnrollmentTemplate (sched [pkt_nack_dev_err]) example_state)"
    by code_simp
  have h3: "fst (startEnrollment (sched [pkt_ack0]) 3 (example_state\<lparr>mEnrollmentStage := 2\<rparr>))"
    by code_simp
  have h4: "\<not> fst (startEnrollment (sched [pkt_nack_dev_err]) 3 (example_state\<lparr>mEnrollmentStage := 2\<rparr>))"
    by code_simp
  have h5: "IsFingerPressed \<noteq> CreateEnrollmentTemplate \<and> (\<forall>i. IsFingerPressed \<noteq> StartEnrollment i)"
    by simp
  show ?thesis
    using h1 h2 h3 h4 h5
      enrollment_stage_changes [of "sched [pkt_ack0]" "example_state\<lparr>mEnrollmentStage := 2\<rparr>" 3 IsFingerPressed]
      enrollment_stage_changes [of "sched [pkt_nack_dev_err]" example_state 3 IsFingerPressed]
      enrollment_stage_changes [of "sched [pkt_nack_dev_err]" "example_state\<lparr>mEnrollmentStage := 2\<rparr>" 3 IsFingerPressed]
    by (simp add: example_state_def)
qed

text \<open>Claim C10: when the exchange of \<open>isFingerPressed\<close> ends with a success whose parameter
  is not 0, the call stores failure with \<open>NACK_FINGER_IS_NOT_PRESSED\<close> and returns false; it
  returns true only for a success with parameter 0; so the stored status is never a success
  together with a nonzero parameter.\<close>

theorem isFingerPressed_nonzero_parameter:
  "(let s2 = pollResponse arrive 0 (snd (send CMD_IS_PRESS_FINGER 0x00000000 True s));
        r = isFingerPressed arrive s
    in (mRespStatus s2 \<and> mRespParam s2 \<noteq> 0 \<longrightarrow>
          r = (False, s2\<lparr>mRespParam := NACK_FINGER_IS_NOT_PRESSED, mRespStatus := False\<rparr>)) \<and>
       (fst r \<longrightarrow> mRespStatus s2 \<and> mRespParam s2 = 0 \<and> snd r = s2) \<and>
       fst r = mRespStatus (snd r) \<and>
       (mRespStatus (snd r) \<longrightarrow> mRespParam (snd r) = 0))"
  by (simp add: isFingerPressed_def Let_def)

text \<open>An acknowledgement with parameter 5 arriving at the second poll, and one with
  parameter 0.\<close>

theorem isFingerPressed_nonzero_parameter_witness:
  "isFingerPressed (sched [[], pkt_ack5]) example_state =
     (False, (pollResponse (sched [[], pkt_ack5]) 0
                (snd (send CMD_IS_PRESS_FINGER 0x00000000 True example_state)))
             \<lparr>mRespParam := NACK_FINGER_IS_NOT_PRESSED, mRespStatus := False\<rparr>) \<and>
   fst (isFingerPressed (sched [pkt_ack0]) example_state) \<and>
   mRespParam (snd (isFingerPressed (sched [pkt_ack0]) example_state)) = 0"
proof -
  have h1: "mRespStatus (pollResponse (sched [[], pkt_ack5]) 0
              (snd (send CMD_IS_PRESS_FINGER 0x00000000 True example_state))) \<and>
            mRespParam (pollResponse (sched [[], pkt_ack5]) 0
              (snd (send CMD_IS_PRESS_FINGER 0x00000000 True example_state))) \<noteq> 0"
    by code_simp
  have h2: "fst (isFingerPressed (sched [pkt_ack0]) example_state)"
    by code_simp
  show ?thesis
    using h1 h2 isFingerPressed_nonzero_parameter [of "sched [[], pkt_ack5]" example_state]
      isFingerPressed_nonzero_parameter [of "sched [pkt_ack0]" example_state]
    by (simp add: Let_def)
qed


section \<open>The uninitialised receive array\<close>

lemma recvResponsePkt_fill_char:
  "i \<le> 12 \<Longrightarrow> length buff = 12 \<Longrightarrow>
     recvResponsePkt_fill i buff rxb =
       (i + min (12 - i) (length rxb),
        take i buff @ take (12 - i) rxb @ drop (i + min (12 - i) (length rxb)) buff,
        drop (12 - i) rxb)"
proof (induction rxb arbitrary: i buff)
  case Nil
  then show ?case by (subst recvResponsePkt_fill.simps) simp
next
  case (Cons x xs)
  show ?case
  proof (cases "i < 12")
    case False
    then have "i = 12" using Cons.prems by simp
    then show ?thesis using Cons.prems by (subst recvResponsePkt_fill.simps) simp
  next
    case True
    have "recvResponsePkt_fill i buff (x # xs) =
            recvResponsePkt_fill (i + 1) (buff[i := x]) xs"
      using True by (subst recvResponsePkt_fill.simps) simp
    also have "\<dots> = (i + 1 + min (12 - (i + 1)) (length xs),
        take (i + 1) (buff[i := x]) @ take (12 - (i + 1)) xs @
          drop (i + 1 + min (12 - (i + 1)) (length xs)) (buff[i := x]),
        drop (12 - (i + 1)) xs)"
      using True Cons.prems by (intro Cons.IH) auto
    also have "take (i + 1) (buff[i := x]) = take i buff @ [x]"
      using Cons.prems True by (simp add: take_Suc_conv_app_nth)
    also have "drop (i + 1 + min (12 - (i + 1)) (length xs)) (buff[i := x]) =
                 drop (i + 1 + min (12 - (i + 1)) (length xs)) buff"
      by simp
    finally have step: "recvResponsePkt_fill i buff (x # xs) =
        (i + 1 + min (12 - (i + 1)) (length xs),
         (take i buff @ [x]) @ take (12 - (i + 1)) xs @
           drop (i + 1 + min (12 - (i + 1)) (length xs)) buff,
         drop (12 - (i + 1)) xs)" .
    have s: "12 - i = Suc (11 - i)" using True by simp
    show ?thesis
      unfolding step by (simp add: s)
  qed
qed

text \<open>The start value of the local array \<open>buff\<close> does not show in what the scan returns:
  neither in \<open>done\<close>, nor in what is left in the receive buffer, nor, when a packet was read,
  in the array.\<close>

lemma recvResponsePkt_scan_buff_irrelevant:
  "length b1 = 12 \<Longrightarrow> length b2 = 12 \<Longrightarrow>
     fst (recvResponsePkt_scan b1 rxb) = fst (recvResponsePkt_scan b2 rxb) \<and>
     snd (snd (recvResponsePkt_scan b1 rxb)) = snd (snd (recvResponsePkt_scan b2 rxb)) \<and>
     (fst (recvResponsePkt_scan b1 rxb) \<longrightarrow>
        fst (snd (recvResponsePkt_scan b1 rxb)) = fst (snd (recvResponsePkt_scan b2 rxb)))"
proof (induction rxb arbitrary: b1 b2 rule: length_induct)
  case (1 rxb)
  note IH = 1(1) and len = 1(2,3)
  show ?case
  proof (cases rxb)
    case Nil
    then show ?thesis by (simp add: recvResponsePkt_scan_Nil)
  next
    case (Cons b bs)
    show ?thesis
    proof (cases "b = 0x55")
      case False
      then show ?thesis
        using IH [rule_format, of bs b1 b2] len Cons by (simp add: recvResponsePkt_scan_skip)
    next
      case b: True
      show ?thesis
      proof (cases bs)
        case Nil
        then show ?thesis using Cons b by (simp add: recvResponsePkt_scan_lone_55)
      next
        case (Cons c cs)
        note bs = this
        show ?thesis
        proof (cases "c = 0xAA")
          case False
          then show ?thesis
            using IH [rule_format, of cs b1 b2] len \<open>rxb = b # bs\<close> b bs
            by (simp add: recvResponsePkt_scan_55_other)
        next
          case c: True
          define f1 where "f1 = recvResponsePkt_fill 2 (b1[0 := 0x55, 1 := 0xAA]) cs"
          define f2 where "f2 = recvResponsePkt_fill 2 (b2[0 := 0x55, 1 := 0xAA]) cs"
          have m1: "recvResponsePkt_scan b1 rxb =
                      (if fst f1 = 12 then (True, fst (snd f1), snd (snd f1))
                       else recvResponsePkt_scan (fst (snd f1)) (snd (snd f1)))"
            unfolding f1_def using \<open>rxb = b # bs\<close> b bs c
            by (simp only: recvResponsePkt_scan_marker Let_def)
          have m2: "recvResponsePkt_scan b2 rxb =
                      (if fst f2 = 12 then (True, fst (snd f2), snd (snd f2))
                       else recvResponsePkt_scan (fst (snd f2)) (snd (snd f2)))"
            unfolding f2_def using \<open>rxb = b # bs\<close> b bs c
            by (simp only: recvResponsePkt_scan_marker Let_def)
          have e1: "f1 = (2 + min 10 (length cs),
                     take 2 (b1[0 := 0x55, 1 := 0xAA]) @ take 10 cs @
                       drop (2 + min 10 (length cs)) (b1[0 := 0x55, 1 := 0xAA]),
                     drop 10 cs)"
            unfolding f1_def using len by (subst recvResponsePkt_fill_char) simp_all
          have e2: "f2 = (2 + min 10 (length cs),
                     take 2 (b2[0 := 0x55, 1 := 0xAA]) @ take 10 cs @
                       drop (2 + min 10 (length cs)) (b2[0 := 0x55, 1 := 0xAA]),
                     drop 10 cs)"
            unfolding f2_def using len by (subst recvResponsePkt_fill_char) simp_all
          have t: "take 2 (b1[0 := 0x55, 1 := 0xAA]) = take 2 (b2[0 := 0x55, 1 := 0xAA])"
            using len by (cases b1; cases "tl b1"; cases b2; cases "tl b2") auto
          have idx: "fst f1 = 2 + min 10 (length cs)" "fst f2 = 2 + min 10 (length cs)"
            and rest: "snd (snd f1) = drop 10 cs" "snd (snd f2) = drop 10 cs"
            and l12: "length (fst (snd f1)) = 12" "length (fst (snd f2)) = 12"
            using len by (simp_all add: e1 e2)
          show ?thesis
          proof (cases "10 \<le> length cs")
            case True
            then have "fst (snd f1) = fst (snd f2)"
              using t len by (simp add: e1 e2)
            then show ?thesis
              using True by (simp add: m1 m2 idx rest)
          next
            case False
            have short: "length (drop 10 cs) < length rxb"
              using \<open>rxb = b # bs\<close> bs by simp
            have ne: "fst f1 \<noteq> 12" "fst f2 \<noteq> 12"
              using False by (simp_all add: idx)
            show ?thesis
              using IH [rule_format, OF short, of "fst (snd f1)" "fst (snd f2)"] l12
              by (simp add: m1 m2 ne rest)
          qed
        qed
      qed
    qed
  qed
qed

section \<open>Retry budget and the enrollment workflow\<close>

lemma polls_isFingerPressed:
  "polls (snd (isFingerPressed arrive s)) \<le> polls s + TIMEOUT"
  by (simp add: isFingerPressed_def Let_def polls_exchange)

lemma polls_removeFingerLoop:
  "polls (snd (removeFingerLoop arrive i s)) \<le> polls s + (5 - i) * TIMEOUT"
proof (induction arrive i s rule: removeFingerLoop.induct)
  case (1 arrive i s)
  show ?case
  proof (cases "i < 5")
    case False
    then show ?thesis by (subst removeFingerLoop.simps) simp
  next
    case True
    then have split: "(5 - i) * TIMEOUT = TIMEOUT + (5 - (i + 1)) * TIMEOUT"
      by (simp add: algebra_simps Suc_diff_Suc flip: mult_Suc)
    show ?thesis
    proof (cases "fst (isFingerPressed arrive s)")
      case pressed: True
      then show ?thesis
        using True polls_isFingerPressed [of arrive s] split
        by (subst removeFingerLoop.simps) simp
    next
      case np: False
      have "polls (snd (removeFingerLoop arrive (i + 1) (snd (isFingerPressed arrive s))))
              \<le> polls (snd (isFingerPressed arrive s)) + (5 - (i + 1)) * TIMEOUT"
        by (rule 1 [OF True np])
      then show ?thesis
        using True np polls_isFingerPressed [of arrive s] split
        by (subst removeFingerLoop.simps) simp
    qed
  qed
qed

lemma polls_ops:
  "polls (snd (startEnrollment arrive ident s)) \<le> polls s + TIMEOUT"
  "polls (snd (powerCMOS arrive on s)) \<le> polls s + TIMEOUT"
  "polls (snd (captureFingerprint arrive hq s)) \<le> polls s + TIMEOUT"
  "polls (snd (createEnrollmentTemplate arrive s)) \<le> polls s + TIMEOUT"
  by (simp_all add: op_defs Let_def polls_exchange)

lemma polls_enrollStep:
  "polls (module (enrollStep arrive ident v)) \<le> polls (module v) + 5 * TIMEOUT"
proof (cases "state v")
  case START
  then show ?thesis
    using polls_ops(1) [of arrive ident "module v"]
    by (simp add: enrollStep_def Let_def)
next
  case CAPTURE
  then show ?thesis
    using polls_ops(2) [of arrive True "module v"]
      polls_ops(3) [of arrive True "snd (powerCMOS arrive True (module v))"]
    by (simp add: enrollStep_def Let_def)
next
  case ENROLL
  then show ?thesis
    using polls_ops(2) [of arrive False "module v"]
      polls_ops(4) [of arrive "snd (powerCMOS arrive False (module v))"]
    by (simp add: enrollStep_def Let_def)
next
  case COMPLETE
  then show ?thesis by (simp add: enrollStep_def)
next
  case REMOVE_FINGER
  then show ?thesis
    using polls_removeFingerLoop [of arrive 0 "module v"]
    by (simp add: enrollStep_def Let_def)
qed

text \<open>The device that always answers "finger pressed".\<close>

lemma recvResponsePkt_always_pressed:
  assumes "rx s = []"
  shows "recvResponsePkt always_pressed s =
     (True, s\<lparr>rx := [], polls := polls s + 1, mRespStatus := True, mRespParam := 0,
              mRespPkt := pkt_ack0\<rparr>)"
proof -
  have scan: "recvResponsePkt_scan (replicate 12 0x00) (pkt_ack0 @ []) = (True, pkt_ack0, [])"
    by (rule recvResponsePkt_scan_packet) (simp_all add: pkt_ack0_def)
  have chk: "computeCheckSum ((!) pkt_ack0) 10 =
               push_bit 8 (ucast (pkt_ack0 ! 11)) OR ucast (pkt_ack0 ! 10)"
    by code_simp
  have copy: "map ((!) pkt_ack0) [0..<12] = pkt_ack0"
    by code_simp
  have vals: "pkt_ack0 ! 8 \<noteq> 0x31"
    "(push_bit 24 (ucast (pkt_ack0 ! 7)) OR push_bit 16 (ucast (pkt_ack0 ! 6)) OR
       push_bit 8 (ucast (pkt_ack0 ! 5)) OR ucast (pkt_ack0 ! 4) :: dword) = 0"
    by (simp_all add: pkt_ack0_def)
  show ?thesis
    using scan chk copy vals assms
    by (simp add: recvResponsePkt_def Let_def always_pressed_def)
qed

lemma pollResponse_always_pressed:
  assumes "rx s = []"
  shows "pollResponse always_pressed 0 s =
     s\<lparr>rx := [], polls := polls s + 1, mRespStatus := True, mRespParam := 0,
        mRespPkt := pkt_ack0\<rparr>"
  by (subst pollResponse.simps) (simp add: recvResponsePkt_always_pressed [OF assms] TIMEOUT_def)

lemma isFingerPressed_always_pressed:
  assumes "rx s = []"
  shows "fst (isFingerPressed always_pressed s)"
    and "rx (snd (isFingerPressed always_pressed s)) = []"
  using assms
  by (simp_all add: isFingerPressed_def Let_def pollResponse_always_pressed send_def)

lemma removeFingerLoop_always_pressed:
  assumes "rx s = []"
  shows "fst (removeFingerLoop always_pressed 0 s) = 0"
    and "rx (snd (removeFingerLoop always_pressed 0 s)) = []"
  using isFingerPressed_always_pressed [OF assms]
  by (subst removeFingerLoop.simps, simp)+

lemma enrollStep_always_pressed:
  assumes "state v = REMOVE_FINGER" and "rx (module v) = []" and "\<not> isDone v"
  shows "state (enrollStep always_pressed ident v) = REMOVE_FINGER"
    and "rx (module (enrollStep always_pressed ident v)) = []"
    and "\<not> isDone (enrollStep always_pressed ident v)"
  using assms removeFingerLoop_always_pressed [OF assms(2)]
  by (simp_all add: enrollStep_def Let_def)

lemma enrollWhile_always_pressed_aux:
  assumes "enrollWhile arrive ident v = Some r"
  shows "\<not> (arrive = always_pressed \<and> state v = REMOVE_FINGER \<and> rx (module v) = [] \<and>
            \<not> isDone v)"
proof (rule enrollWhile.raw_induct
    [where P = "\<lambda>arrive ident v r. \<not> (arrive = always_pressed \<and> state v = REMOVE_FINGER \<and>
                   rx (module v) = [] \<and> \<not> isDone v)", OF _ assms], goal_cases)
  case (1 enrollWhile' arrive ident v r)
  show ?case
  proof
    assume inv: "arrive = always_pressed \<and> state v = REMOVE_FINGER \<and> rx (module v) = [] \<and>
                 \<not> isDone v"
    then have "enrollWhile' arrive ident (enrollStep arrive ident v) = Some r"
      using 1(2) by simp
    then have "\<not> (arrive = always_pressed \<and> state (enrollStep arrive ident v) = REMOVE_FINGER \<and>
                  rx (module (enrollStep arrive ident v)) = [] \<and>
                  \<not> isDone (enrollStep arrive ident v))"
      by (rule 1(1))
    then show False
      using inv enrollStep_always_pressed [of v ident] by simp
  qed
qed

lemma enrollWhile_always_pressed:
  assumes "state v = REMOVE_FINGER" and "rx (module v) = []" and "\<not> isDone v"
  shows "enrollWhile always_pressed ident v = None"
proof (cases "enrollWhile always_pressed ident v")
  case None
  then show ?thesis .
next
  case (Some r)
  then show ?thesis
    using enrollWhile_always_pressed_aux [of always_pressed ident v r] assms by simp
qed

lemma startEnrollment_always_pressed:
  assumes "rx s = []"
  shows "fst (startEnrollment always_pressed ident s)"
    and "rx (snd (startEnrollment always_pressed ident s)) = []"
  using assms
  by (simp_all add: startEnrollment_def Let_def pollResponse_always_pressed send_def)

lemma enrollSequence_always_pressed:
  assumes "rx s = []"
  shows "enrollSequence always_pressed ident s = None"
proof -
  let ?v0 = "\<lparr>state = START, success = True, isDone = False, module = s\<rparr>"
  let ?v1 = "enrollStep always_pressed ident ?v0"
  have "state ?v1 = REMOVE_FINGER" "rx (module ?v1) = []" "\<not> isDone ?v1"
    using startEnrollment_always_pressed [OF assms, of ident]
    by (simp_all add: enrollStep_def Let_def)
  then have "enrollWhile always_pressed ident ?v1 = None"
    by (rule enrollWhile_always_pressed)
  then have "enrollWhile always_pressed ident ?v0 = None"
    by (subst enrollWhile.simps) simp
  then show ?thesis by (simp add: enrollSequence_def)
qed

text \<open>Using up the retry count: every receive call of the polling loop returned false.\<close>

lemma recvResponsePkt_tx:
  "recvResponsePkt arrive (s\<lparr>tx := t\<rparr>) =
     (fst (recvResponsePkt arrive s), (snd (recvResponsePkt arrive s))\<lparr>tx := t\<rparr>)"
  by (simp add: recvResponsePkt_def Let_def)

lemma pollResponse_count_tx:
  "pollResponse_count arrive i (s\<lparr>tx := t\<rparr>) = pollResponse_count arrive i s"
proof (induction arrive i s rule: pollResponse_count.induct)
  case (1 arrive i s)
  show ?case
  proof (cases "i < TIMEOUT \<and> \<not> fst (recvResponsePkt arrive s)")
    case True
    then show ?thesis
      using 1
      by (subst pollResponse_count.simps, subst (2) pollResponse_count.simps)
         (simp add: recvResponsePkt_tx)
  next
    case False
    then show ?thesis
      by (subst pollResponse_count.simps, subst (2) pollResponse_count.simps)
         (auto simp add: recvResponsePkt_tx)
  qed
qed

lemma pollResponse_exceeded:
  "i < TIMEOUT \<Longrightarrow> pollResponse_count arrive i s = TIMEOUT \<Longrightarrow>
     mRespStatus (pollResponse arrive i s) = False \<and>
     mRespParam (pollResponse arrive i s) = NACK_NOT_RECVD \<and>
     polls (pollResponse arrive i s) = polls s + (TIMEOUT - i)"
proof (induction arrive i s rule: pollResponse.induct)
  case (1 arrive i s)
  have nd: "\<not> fst (recvResponsePkt arrive s)"
    using 1(2,3) by (subst (asm) pollResponse_count.simps) (auto split: if_splits)
  have cnt: "pollResponse_count arrive (i + 1) (snd (recvResponsePkt arrive s)) = TIMEOUT"
    using 1(2,3) nd by (subst (asm) pollResponse_count.simps) simp
  have unfold: "pollResponse arrive i s = pollResponse arrive (i + 1) (snd (recvResponsePkt arrive s))"
    using 1(2) nd by (subst pollResponse.simps) simp
  show ?case
  proof (cases "i + 1 < TIMEOUT")
    case True
    then show ?thesis
      using 1(1) [OF 1(2) nd True cnt] unfold by simp
  next
    case False
    then have "pollResponse arrive (i + 1) (snd (recvResponsePkt arrive s)) =
                 snd (recvResponsePkt arrive s)"
      by (subst pollResponse.simps) simp
    then show ?thesis
      using unfold recvResponsePkt_False [OF nd] False 1(2) by simp
  qed
qed

lemma exchange_exceeded:
  assumes "pollResponse_count arrive 0 s = TIMEOUT"
  shows "mRespStatus (pollResponse arrive 0 (snd (send c p be s))) = False"
    and "mRespParam (pollResponse arrive 0 (snd (send c p be s))) = NACK_NOT_RECVD"
    and "polls (pollResponse arrive 0 (snd (send c p be s))) = polls s + TIMEOUT"
proof -
  have "pollResponse_count arrive 0 (snd (send c p be s)) = TIMEOUT"
    using assms by (simp add: send_def Let_def pollResponse_count_tx)
  then show "mRespStatus (pollResponse arrive 0 (snd (send c p be s))) = False"
    and "mRespParam (pollResponse arrive 0 (snd (send c p be s))) = NACK_NOT_RECVD"
    and "polls (pollResponse arrive 0 (snd (send c p be s))) = polls s + TIMEOUT"
    using pollResponse_exceeded [of 0 arrive "snd (send c p be s)"]
    by (simp_all add: TIMEOUT_def)
qed

lemma exchange_exceeded_reopened:
  assumes "pollResponse_count arrive 0 (s\<lparr>rx := []\<rparr>) = TIMEOUT"
  shows "mRespStatus (pollResponse arrive 0 ((snd (send c p be s))\<lparr>rx := []\<rparr>)) = False"
    and "mRespParam (pollResponse arrive 0 ((snd (send c p be s))\<lparr>rx := []\<rparr>)) = NACK_NOT_RECVD"
    and "polls (pollResponse arrive 0 ((snd (send c p be s))\<lparr>rx := []\<rparr>)) = polls s + TIMEOUT"
proof -
  have eq: "(snd (send c p be s))\<lparr>rx := []\<rparr> = (s\<lparr>rx := []\<rparr>)\<lparr>tx := tx s @ cmdPacket c p be\<rparr>"
    by (simp add: send_def Let_def)
  have "pollResponse_count arrive 0 ((snd (send c p be s))\<lparr>rx := []\<rparr>) = TIMEOUT"
    unfolding eq using assms by (simp only: pollResponse_count_tx)
  then show "mRespStatus (pollResponse arrive 0 ((snd (send c p be s))\<lparr>rx := []\<rparr>)) = False"
    and "mRespParam (pollResponse arrive 0 ((snd (send c p be s))\<lparr>rx := []\<rparr>)) = NACK_NOT_RECVD"
    and "polls (pollResponse arrive 0 ((snd (send c p be s))\<lparr>rx := []\<rparr>)) = polls s + TIMEOUT"
    using pollResponse_exceeded [of 0 arrive "(snd (send c p be s))\<lparr>rx := []\<rparr>"]
    by (simp_all add: TIMEOUT_def)
qed

lemma perform_exceeded:
  assumes "op = CreateEnrollmentTemplate \<longrightarrow>
           mEnrollmentStage s = 0 \<or> mEnrollmentStage s = 1 \<or> mEnrollmentStage s = 2"
    and "pollResponse_count arrive 0
           (case op of ChangeBaudrate baud \<Rightarrow> s\<lparr>rx := []\<rparr> | _ \<Rightarrow> s) = TIMEOUT"
  shows "fst (perform arrive op s) = False \<and>
         mRespStatus (snd (perform arrive op s)) = False \<and>
         mRespParam (snd (perform arrive op s)) = NACK_NOT_RECVD \<and>
         polls (snd (perform arrive op s)) = polls s + TIMEOUT"
proof (cases op)
  case (ChangeBaudrate baud)
  then have "pollResponse_count arrive 0 (s\<lparr>rx := []\<rparr>) = TIMEOUT"
    using assms(2) by simp
  then show ?thesis
    using ChangeBaudrate
    by (simp add: changeBaudrate_def Let_def exchange_exceeded_reopened)
qed (use assms in \<open>auto simp add: op_defs Let_def exchange_exceeded\<close>)

lemma createEnrollmentTemplate_bad_stage:
  "mEnrollmentStage s \<noteq> 0 \<Longrightarrow> mEnrollmentStage s \<noteq> 1 \<Longrightarrow> mEnrollmentStage s \<noteq> 2 \<Longrightarrow>
     createEnrollmentTemplate arrive s = (False, s)"
  by (simp add: createEnrollmentTemplate_def)

text \<open>Claim C4, as amended: every single-command operation returns after at most \<open>TIMEOUT\<close>
  receive attempts (\<open>open\<close> with error checking makes one more, for its data packet;
  \<open>createEnrollmentTemplate\<close> called while the stage is outside 0..2 makes none, returns false
  at once and leaves the module as it was); whenever the retry count is used up, all
  \<open>TIMEOUT\<close> receive attempts having ended without a complete packet, the operation fails
  with \<open>NACK_NOT_RECVD\<close>; and one pass of the \<open>enrollSequence\<close> loop makes at most
  \<open>5 * TIMEOUT\<close> receive attempts. All the functions involved are total, so each of these
  calls returns. The polling loop starts from the state the operation was called in, but for
  what \<open>send\<close> appended to \<open>tx\<close> (which no receive call reads) and, for \<open>changeBaudrate\<close>,
  the emptied receive buffer.\<close>

theorem operations_bounded:
  "polls (snd (perform arrive op s)) \<le>
     polls s + (if op = Open True then TIMEOUT + 1 else TIMEOUT) \<and>
   (mEnrollmentStage s \<noteq> 0 \<and> mEnrollmentStage s \<noteq> 1 \<and> mEnrollmentStage s \<noteq> 2
    \<longrightarrow> perform arrive CreateEnrollmentTemplate s = (False, s)) \<and>
   ((op = CreateEnrollmentTemplate \<longrightarrow>
       mEnrollmentStage s = 0 \<or> mEnrollmentStage s = 1 \<or> mEnrollmentStage s = 2) \<and>
    pollResponse_count arrive 0
      (case op of ChangeBaudrate baud \<Rightarrow> s\<lparr>rx := []\<rparr> | _ \<Rightarrow> s) = TIMEOUT
    \<longrightarrow> fst (perform arrive op s) = False \<and>
        mRespStatus (snd (perform arrive op s)) = False \<and>
        mRespParam (snd (perform arrive op s)) = NACK_NOT_RECVD \<and>
        polls (snd (perform arrive op s)) = polls s + TIMEOUT) \<and>
   polls (module (enrollStep arrive ident v)) \<le> polls (module v) + 5 * TIMEOUT"
  using polls_perform [of arrive op s] perform_exceeded [of op s arrive]
    createEnrollmentTemplate_bad_stage [of s arrive]
    polls_enrollStep [of arrive ident v]
  by simp

text \<open>\<open>open\<close> against a device that delivers a truncated packet before every receive
  call, and \<open>createEnrollmentTemplate\<close> called at stage 3.\<close>

theorem operations_bounded_witness:
  "polls (snd (perform truncated_device (Open True) example_state)) = 11 \<and>
   fst (perform truncated_device (Open True) example_state) = False \<and>
   mRespStatus (snd (perform truncated_device (Open True) example_state)) = False \<and>
   mRespParam (snd (perform truncated_device (Open True) example_state)) = NACK_NOT_RECVD \<and>
   perform truncated_device CreateEnrollmentTemplate (example_state\<lparr>mEnrollmentStage := 3\<rparr>) =
     (False, example_state\<lparr>mEnrollmentStage := 3\<rparr>)"
proof -
  have h1: "Open True = CreateEnrollmentTemplate \<longrightarrow>
       mEnrollmentStage example_state = 0 \<or> mEnrollmentStage example_state = 1 \<or>
       mEnrollmentStage example_state = 2"
    by simp
  have h2: "pollResponse_count truncated_device 0
              (case Open True of ChangeBaudrate baud \<Rightarrow> example_state\<lparr>rx := []\<rparr>
               | _ \<Rightarrow> example_state) = TIMEOUT"
    by code_simp
  have h3: "mEnrollmentStage (example_state\<lparr>mEnrollmentStage := 3\<rparr>) \<noteq> 0 \<and>
            mEnrollmentStage (example_state\<lparr>mEnrollmentStage := 3\<rparr>) \<noteq> 1 \<and>
            mEnrollmentStage (example_state\<lparr>mEnrollmentStage := 3\<rparr>) \<noteq> 2"
    by simp
  show ?thesis
    using h1 h2 h3
      operations_bounded [of truncated_device "Open True" example_state 0
        "\<lparr>state = START, success = True, isDone = False, module = example_state\<rparr>"]
      operations_bounded [of truncated_device "Open True"
        "example_state\<lparr>mEnrollmentStage := 3\<rparr>" 0
        "\<lparr>state = START, success = True, isDone = False, module = example_state\<rparr>"]
    by (simp add: example_state_def TIMEOUT_def)
qed

text \<open>Claim C4 as stated fails for \<open>enrollSequence\<close>: against a device that keeps
  reporting the finger pressed, the workflow stays in \<open>REMOVE_FINGER\<close> and never returns.\<close>

theorem enrollSequence_unbounded_counterexample:
  "enrollSequence always_pressed 0 example_state = None"
  by (rule enrollSequence_always_pressed) (simp add: example_state_def)

text \<open>Claim C6 against the code: when \<open>powerCMOS(true)\<close> fails in the \<open>CAPTURE\<close> state, the
  workflow does end with overall failure, but only after it has also sent the capture
  command, whose acknowledgement replaces the illumination failure in the stored status and
  code.\<close>

theorem enrollSequence_cmos_failure:
  "enrollSequence cmos_failure_device 3 example_state \<noteq> None \<and>
   fst (the (enrollSequence cmos_failure_device 3 example_state)) = False \<and>
   mRespStatus (snd (the (enrollSequence cmos_failure_device 3 example_state))) = True \<and>
   mRespParam (snd (the (enrollSequence cmos_failure_device 3 example_state))) = 0 \<and>
   take 12 (drop 72 (tx (snd (the (enrollSequence cmos_failure_device 3 example_state))))) =
     cmdPacket CMD_CMOS_LED 1 True \<and>
   drop 84 (tx (snd (the (enrollSequence cmos_failure_device 3 example_state)))) =
     cmdPacket CMD_CAPTURE_FINGER 1 True"
  by code_simp

end
